theory Spec2Isabelle
  imports Main "HOL-Library.Word"
begin

unbundle bit_operations_syntax

section \<open>DNS-SD service announcement of Dire Wolf\<close>

text \<open>
  A shallow embedding of \<^verbatim>\<open>dns_sd_common.c\<close>, \<^verbatim>\<open>dns_sd_avahi.c\<close> and
  \<^verbatim>\<open>dns_sd_macos.c\<close>.  C strings are \<^typ>\<open>string\<close>, a \<^verbatim>\<open>char *\<close> that may be
  \<^verbatim>\<open>NULL\<close> is a \<^typ>\<open>string option\<close>, and \<^verbatim>\<open>int\<close> ports and channels are
  \<^typ>\<open>int\<close> (no arithmetic is ever done on them, they are only compared and printed).

  The constant \<^verbatim>\<open>MAX_KISS_TCP_PORTS\<close> comes from \<^verbatim>\<open>config.h\<close>, which is not part of
  the sources at hand; every function that loops over the KISS ports takes it as its first
  argument \<open>K\<close>.  The fixed-size arrays \<^verbatim>\<open>kiss_port[MAX_KISS_TCP_PORTS]\<close> and
  \<^verbatim>\<open>kiss_chan[MAX_KISS_TCP_PORTS]\<close> are functions from the index, read below \<open>K\<close> only.
\<close>

subsection \<open>Data model (\<^verbatim>\<open>dns_sd_common.h\<close>)\<close>

record misc_config_s =
  agwpe_port :: int
  kiss_port :: "nat \<Rightarrow> int"
  kiss_chan :: "nat \<Rightarrow> int"
  dns_sd_name :: string

record dns_sd_service_t =
  port :: int
  channel :: int
  name :: "string option"

definition MAX_DNS_SD_SERVICES :: "nat \<Rightarrow> nat" where
  "MAX_DNS_SD_SERVICES K = 1 + K"

text \<open>One element of the array as \<^verbatim>\<open>calloc\<close> leaves it: all fields zero, the name \<^verbatim>\<open>NULL\<close>.\<close>

definition calloc_service :: dns_sd_service_t where
  "calloc_service = \<lparr>port = 0, channel = 0, name = None\<rparr>"

subsection \<open>C library string functions\<close>

text \<open>
  \<^verbatim>\<open>strlcpy(dst, src, size)\<close> leaves in \<open>dst\<close> at most \<open>size - 1\<close> characters of \<open>src\<close>;
  \<^verbatim>\<open>strlcat(dst, src, size)\<close> appends as much of \<open>src\<close> as keeps the whole string below
  \<open>size\<close> characters, and leaves a \<open>dst\<close> that already fills the buffer as it is;
  \<^verbatim>\<open>snprintf(buf, size, ...)\<close> keeps the first \<open>size - 1\<close> characters of the formatted text.
\<close>

definition strlcpy :: "string \<Rightarrow> nat \<Rightarrow> string" where
  "strlcpy src siz = take (siz - 1) src"

definition strlcat :: "string \<Rightarrow> string \<Rightarrow> nat \<Rightarrow> string" where
  "strlcat dst src siz =
     (if siz \<le> length dst then dst else dst @ take (siz - 1 - length dst) src)"

definition snprintf :: "nat \<Rightarrow> string \<Rightarrow> string" where
  "snprintf siz formatted = take (siz - 1) formatted"

text \<open>The conversion \<^verbatim>\<open>%i\<close>: decimal digits, most significant first, a minus sign if negative.\<close>

fun dec_nat :: "nat \<Rightarrow> string" where
  "dec_nat n =
     (if n < 10 then [''0123456789'' ! n]
      else dec_nat (n div 10) @ [''0123456789'' ! (n mod 10)])"

declare dec_nat.simps [simp del]

definition dec_int :: "int \<Rightarrow> string" where
  "dec_int i = (if i < 0 then CHR ''-'' # dec_nat (nat (- i)) else dec_nat (nat i))"

subsection \<open>\<^verbatim>\<open>dns_sd_common.c\<close>\<close>

definition dns_sd_service_count :: "nat \<Rightarrow> misc_config_s \<Rightarrow> int" where
  "dns_sd_service_count K mc =
     fold (\<lambda>i count. if kiss_port mc i \<noteq> 0 then count + 1 else count) [0..<K]
       (if agwpe_port mc \<noteq> 0 then 1 else 0)"

definition make_service_name :: "string \<Rightarrow> string \<Rightarrow> int \<Rightarrow> string" where
  "make_service_name basename hostname chan =
     (let sname = (if basename \<noteq> [] then strlcpy basename 128 else ''Dire Wolf'');
          sname = (if chan \<noteq> - 1
                   then strlcat sname (snprintf 64 ('' channel '' @ dec_int chan)) 128
                   else sname);
          sname = (if hostname \<noteq> []
                   then strlcat sname (snprintf 64 ('' on '' @ hostname)) 128
                   else sname)
      in sname)"

text \<open>
  \<^verbatim>\<open>gethostname(hostname, 51)\<close> either fails (\<open>None\<close>) or copies the host's name into
  the 51-byte buffer; the code then terminates the buffer at index 50 and cuts the name
  at the first dot.
\<close>

definition local_hostname :: "string option \<Rightarrow> string" where
  "local_hostname gh =
     (case gh of
        Some h \<Rightarrow> takeWhile (\<lambda>c. c \<noteq> CHR ''.'') (take 50 h)
      | None \<Rightarrow> [])"

definition kiss_step ::
  "misc_config_s \<Rightarrow> string \<Rightarrow> nat \<Rightarrow> nat \<times> dns_sd_service_t list
     \<Rightarrow> nat \<times> dns_sd_service_t list" where
  "kiss_step mc hostname i = (\<lambda>(j, ctx).
     if kiss_port mc i \<noteq> 0
     then (j + 1,
           ctx[j := (ctx ! j)\<lparr>port := kiss_port mc i, channel := kiss_chan mc i,
                  name := Some (make_service_name (dns_sd_name mc) hostname (kiss_chan mc i))\<rparr>])
     else (j, ctx))"

definition dns_sd_create_context ::
  "nat \<Rightarrow> misc_config_s \<Rightarrow> string option \<Rightarrow> dns_sd_service_t list" where
  "dns_sd_create_context K mc gh =
     (let hostname = local_hostname gh;
          ctx = replicate (MAX_DNS_SD_SERVICES K) calloc_service;
          ctx = (if agwpe_port mc \<noteq> 0
                 then ctx[0 := (ctx ! 0)\<lparr>port := agwpe_port mc, channel := - 1,
                        name := Some (make_service_name (dns_sd_name mc) hostname (- 1))\<rparr>]
                 else ctx)
      in snd (fold (kiss_step mc hostname) [0..<K] (1, ctx)))"

subsection \<open>The Avahi library as seen by \<^verbatim>\<open>dns_sd_avahi.c\<close>\<close>

text \<open>
  The two result codes the code compares with, as \<^verbatim>\<open>avahi-common/error.h\<close> defines them.
\<close>

definition AVAHI_OK :: int where
  "AVAHI_OK = 0"

definition AVAHI_ERR_COLLISION :: int where
  "AVAHI_ERR_COLLISION = - 8"

definition DNS_SD_TYPE_AGWPE :: string where
  "DNS_SD_TYPE_AGWPE = ''_agwpe._tcp''"

definition DNS_SD_TYPE_KISS :: string where
  "DNS_SD_TYPE_KISS = ''_kiss-tnc._tcp''"

datatype AvahiEntryGroupState =
    AVAHI_ENTRY_GROUP_UNCOMMITED
  | AVAHI_ENTRY_GROUP_REGISTERING
  | AVAHI_ENTRY_GROUP_ESTABLISHED
  | AVAHI_ENTRY_GROUP_COLLISION
  | AVAHI_ENTRY_GROUP_FAILURE

datatype AvahiClientState =
    AVAHI_CLIENT_S_REGISTERING
  | AVAHI_CLIENT_S_RUNNING
  | AVAHI_CLIENT_S_COLLISION
  | AVAHI_CLIENT_FAILURE
  | AVAHI_CLIENT_CONNECTING

text \<open>
  Pointers to library objects are handles; a pointer that may be \<^verbatim>\<open>NULL\<close> is an option.
  An entry group knows the client it was created through.
\<close>

type_synonym AvahiClient = nat
type_synonym AvahiSimplePoll = nat

datatype AvahiEntryGroup =
  AvahiEntryGroup (group_id: nat) (avahi_entry_group_get_client: AvahiClient)

text \<open>The calls into the library (and \<^verbatim>\<open>pthread_create\<close>, \<^verbatim>\<open>free(ctx)\<close>), in the order made.\<close>

datatype avahi_call =
    Simple_poll_new
  | Client_new AvahiSimplePoll
  | Entry_group_new AvahiClient
  | Entry_group_reset AvahiEntryGroup
  | Entry_group_add_service AvahiEntryGroup string string "16 word"
  | Entry_group_commit AvahiEntryGroup
  | Simple_poll_quit AvahiSimplePoll
  | Entry_group_free AvahiEntryGroup
  | Client_free AvahiClient
  | Simple_poll_free AvahiSimplePoll
  | Free_ctx
  | Pthread_create

text \<open>
  What one call of \<^verbatim>\<open>avahi_client_new\<close> does: the client object it builds, the client
  states it reports to the callback before it returns, and whether it fails (with the
  code it stores through \<^verbatim>\<open>&error\<close>) or returns the client.
\<close>

record client_new_outcome =
  cn_client :: AvahiClient
  cn_events :: "AvahiClientState list"
  cn_error :: "int option"

text \<open>
  The state: the three static variables of the file, the worker thread (started with the
  context as its argument), and the world outside: the quit flag of the poll object, the
  services held by the entry group, the trace of calls, and what the daemon will answer.
  Each answer stream is indexed by the calls still to come: its element 0 answers the next
  call.  \<open>indeterminate_result\<close> is what the uninitialised local \<^verbatim>\<open>result\<close> of
  \<^verbatim>\<open>create_services\<close> happens to hold.  Console output is not modelled here.
\<close>

record avahi_state =
  group :: "AvahiEntryGroup option"
  simple_poll :: "AvahiSimplePoll option"
  client :: "AvahiClient option"
  avahi_thread :: "dns_sd_service_t list option"
  poll_quit :: bool
  entries :: "(string \<times> string \<times> 16 word) list"
  calls :: "avahi_call list"
  add_service_results :: "nat \<Rightarrow> int"
  commit_results :: "nat \<Rightarrow> int"
  entry_group_new_results :: "nat \<Rightarrow> nat option"
  simple_poll_new_result :: "AvahiSimplePoll option"
  client_new_result :: client_new_outcome
  indeterminate_result :: int

definition avahi_entry_group_new ::
  "AvahiClient \<Rightarrow> avahi_state \<Rightarrow> AvahiEntryGroup option \<times> avahi_state" where
  "avahi_entry_group_new c st =
     (map_option (\<lambda>i. AvahiEntryGroup i c) (entry_group_new_results st 0),
      st\<lparr>entry_group_new_results := (\<lambda>n. entry_group_new_results st (Suc n)),
         entries := [],
         calls := calls st @ [Entry_group_new c]\<rparr>)"

definition avahi_entry_group_reset :: "AvahiEntryGroup \<Rightarrow> avahi_state \<Rightarrow> avahi_state" where
  "avahi_entry_group_reset g st =
     st\<lparr>entries := [], calls := calls st @ [Entry_group_reset g]\<rparr>"

definition avahi_entry_group_is_empty :: "avahi_state \<Rightarrow> bool" where
  "avahi_entry_group_is_empty st = (entries st = [])"

text \<open>
  The port parameter of \<^verbatim>\<open>avahi_entry_group_add_service\<close> is a \<^verbatim>\<open>uint16_t\<close>: an
  \<^verbatim>\<open>int\<close> passed for it is converted, which keeps its low 16 bits.
\<close>

definition uint16_t :: "int \<Rightarrow> 16 word" where
  "uint16_t i = word_of_int i"

definition avahi_entry_group_add_service ::
  "AvahiEntryGroup \<Rightarrow> string \<Rightarrow> string \<Rightarrow> 16 word \<Rightarrow> avahi_state \<Rightarrow> int \<times> avahi_state" where
  "avahi_entry_group_add_service g nm ty p st =
     (let r = add_service_results st 0
      in (r,
          st\<lparr>add_service_results := (\<lambda>n. add_service_results st (Suc n)),
             entries := (if r = AVAHI_OK then entries st @ [(nm, ty, p)] else entries st),
             calls := calls st @ [Entry_group_add_service g nm ty p]\<rparr>))"

definition avahi_entry_group_commit ::
  "AvahiEntryGroup \<Rightarrow> avahi_state \<Rightarrow> int \<times> avahi_state" where
  "avahi_entry_group_commit g st =
     (commit_results st 0,
      st\<lparr>commit_results := (\<lambda>n. commit_results st (Suc n)),
         calls := calls st @ [Entry_group_commit g]\<rparr>)"

definition avahi_simple_poll_quit :: "AvahiSimplePoll \<Rightarrow> avahi_state \<Rightarrow> avahi_state" where
  "avahi_simple_poll_quit p st = st\<lparr>poll_quit := True, calls := calls st @ [Simple_poll_quit p]\<rparr>"

subsection \<open>\<^verbatim>\<open>dns_sd_avahi.c\<close>\<close>

text \<open>
  The array \<^verbatim>\<open>ctx\<close> has \<^verbatim>\<open>MAX_DNS_SD_SERVICES\<close> elements; it is a list of that length,
  and a loop over \<^verbatim>\<open>i < MAX_DNS_SD_SERVICES\<close> runs over the indices of the list.
  \<open>alt\<close> is \<^verbatim>\<open>avahi_alternative_service_name\<close>.
\<close>

definition rename_all_services ::
  "(string \<Rightarrow> string) \<Rightarrow> dns_sd_service_t list \<Rightarrow> dns_sd_service_t list" where
  "rename_all_services alt ctx =
     fold (\<lambda>i ctx. case name (ctx ! i) of
                      Some prev_name \<Rightarrow> ctx[i := (ctx ! i)\<lparr>name := Some (alt prev_name)\<rparr>]
                    | None \<Rightarrow> ctx)
       [0..<length ctx] ctx"

definition dns_sd_term_avahi :: "avahi_state \<Rightarrow> avahi_state" where
  "dns_sd_term_avahi st =
     (case simple_poll st of Some p \<Rightarrow> avahi_simple_poll_quit p st | None \<Rightarrow> st)"

text \<open>
  The \<^verbatim>\<open>do ... while (error == AVAHI_ERR_COLLISION)\<close> loop of \<^verbatim>\<open>create_service\<close>.  It
  has no bound, so the result is an option: \<open>None\<close> when the call does not return, which is
  the case when the daemon answers with a collision for ever, and also when the name is
  \<^verbatim>\<open>NULL\<close> (the library aborts on it).
\<close>

partial_function (option) create_service ::
  "(string \<Rightarrow> string) \<Rightarrow> AvahiEntryGroup \<Rightarrow> dns_sd_service_t \<Rightarrow> bool \<Rightarrow> avahi_state
     \<Rightarrow> (int \<times> dns_sd_service_t \<times> avahi_state) option" where
  "create_service alt g svc is_agwpe st =
     (case name svc of
        None \<Rightarrow> None
      | Some nm \<Rightarrow>
          (case avahi_entry_group_add_service g nm
                  (if is_agwpe then DNS_SD_TYPE_AGWPE else DNS_SD_TYPE_KISS)
                  (uint16_t (port svc)) st of
             (error, st') \<Rightarrow>
               if error = AVAHI_ERR_COLLISION
               then create_service alt g (svc\<lparr>name := Some (alt nm)\<rparr>) is_agwpe st'
               else Some (error, svc, st')))"

declare create_service.simps [code]

text \<open>
  The \<^verbatim>\<open>for\<close> loop of \<^verbatim>\<open>create_services\<close> over the indices still to visit, with its
  \<^verbatim>\<open>continue\<close> and \<^verbatim>\<open>break\<close>; \<open>result\<close> is the local variable of that name.
\<close>

fun add_each_service ::
  "(string \<Rightarrow> string) \<Rightarrow> AvahiEntryGroup \<Rightarrow> nat list \<Rightarrow> int \<Rightarrow> dns_sd_service_t list
     \<Rightarrow> avahi_state \<Rightarrow> (int \<times> dns_sd_service_t list \<times> avahi_state) option" where
  "add_each_service alt g [] result ctx st = Some (result, ctx, st)"
| "add_each_service alt g (i # is) result ctx st =
     (if port (ctx ! i) = 0 then add_each_service alt g is result ctx st
      else case create_service alt g (ctx ! i) (i = 0) st of
             None \<Rightarrow> None
           | Some (result', svc, st') \<Rightarrow>
               if result' \<noteq> AVAHI_OK then Some (result', ctx[i := svc], st')
               else add_each_service alt g is result' (ctx[i := svc]) st')"

text \<open>
  The first block of \<^verbatim>\<open>create_services\<close>: a new entry group when there is none, a
  reset of the group otherwise.  \<open>Inl\<close> is the early return after the group could not be
  created.
\<close>

definition obtain_group ::
  "AvahiClient \<Rightarrow> avahi_state \<Rightarrow> avahi_state + AvahiEntryGroup \<times> avahi_state" where
  "obtain_group c st =
     (case group st of
        None \<Rightarrow>
          (case avahi_entry_group_new c st of
             (None, st') \<Rightarrow> Inl (dns_sd_term_avahi (st'\<lparr>group := None\<rparr>))
           | (Some g, st') \<Rightarrow> Inr (g, st'\<lparr>group := Some g\<rparr>))
      | Some g \<Rightarrow> Inr (g, avahi_entry_group_reset g st))"

definition create_services ::
  "(string \<Rightarrow> string) \<Rightarrow> AvahiClient \<Rightarrow> dns_sd_service_t list \<Rightarrow> avahi_state
     \<Rightarrow> (dns_sd_service_t list \<times> avahi_state) option" where
  "create_services alt c ctx st =
     (case obtain_group c st of
        Inl st' \<Rightarrow> Some (ctx, st')
      | Inr (g, st1) \<Rightarrow>
          if avahi_entry_group_is_empty st1
          then (case add_each_service alt g [0..<length ctx] (indeterminate_result st1) ctx st1 of
                  None \<Rightarrow> None
                | Some (result, ctx', st2) \<Rightarrow>
                    if result \<noteq> AVAHI_OK then Some (ctx', dns_sd_term_avahi st2)
                    else (case avahi_entry_group_commit g st2 of
                            (result', st3) \<Rightarrow>
                              if result' \<noteq> AVAHI_OK then Some (ctx', dns_sd_term_avahi st3)
                              else Some (ctx', st3)))
          else Some (ctx, st1))"

text \<open>
  \<^verbatim>\<open>entry_group_callback\<close>; \<open>None\<close> also when the assertion on \<open>g\<close> fails.
\<close>

definition entry_group_callback ::
  "(string \<Rightarrow> string) \<Rightarrow> AvahiEntryGroup \<Rightarrow> AvahiEntryGroupState \<Rightarrow> dns_sd_service_t list
     \<Rightarrow> avahi_state \<Rightarrow> (dns_sd_service_t list \<times> avahi_state) option" where
  "entry_group_callback alt g state ctx st =
     (if \<not> (group st = Some g \<or> group st = None) then None
      else let st = st\<lparr>group := Some g\<rparr> in
        case state of
          AVAHI_ENTRY_GROUP_ESTABLISHED \<Rightarrow> Some (ctx, st)
        | AVAHI_ENTRY_GROUP_COLLISION \<Rightarrow>
            create_services alt (avahi_entry_group_get_client g) (rename_all_services alt ctx) st
        | AVAHI_ENTRY_GROUP_FAILURE \<Rightarrow> Some (ctx, dns_sd_term_avahi st)
        | AVAHI_ENTRY_GROUP_UNCOMMITED \<Rightarrow> Some (ctx, st)
        | AVAHI_ENTRY_GROUP_REGISTERING \<Rightarrow> Some (ctx, st))"

definition client_callback ::
  "(string \<Rightarrow> string) \<Rightarrow> AvahiClient \<Rightarrow> AvahiClientState \<Rightarrow> dns_sd_service_t list
     \<Rightarrow> avahi_state \<Rightarrow> (dns_sd_service_t list \<times> avahi_state) option" where
  "client_callback alt c state ctx st =
     (case state of
        AVAHI_CLIENT_S_RUNNING \<Rightarrow> create_services alt c ctx st
      | AVAHI_CLIENT_FAILURE \<Rightarrow> Some (ctx, dns_sd_term_avahi st)
      | AVAHI_CLIENT_S_COLLISION \<Rightarrow>
          Some (ctx, case group st of Some g \<Rightarrow> avahi_entry_group_reset g st | None \<Rightarrow> st)
      | AVAHI_CLIENT_S_REGISTERING \<Rightarrow>
          Some (ctx, case group st of Some g \<Rightarrow> avahi_entry_group_reset g st | None \<Rightarrow> st)
      | AVAHI_CLIENT_CONNECTING \<Rightarrow> Some (ctx, st))"

text \<open>
  \<^verbatim>\<open>cleanup\<close> releases the group, the client and the poll object, in this order, then the
  names and the array; the names are values here, so only the release of the array shows.
\<close>

definition cleanup :: "dns_sd_service_t list \<Rightarrow> avahi_state \<Rightarrow> avahi_state" where
  "cleanup ctx st =
     (let st = (case group st of
                  Some g \<Rightarrow> st\<lparr>group := None, entries := [],
                                calls := calls st @ [Entry_group_free g]\<rparr>
                | None \<Rightarrow> st);
          st = (case client st of
                  Some c \<Rightarrow> st\<lparr>client := None, calls := calls st @ [Client_free c]\<rparr>
                | None \<Rightarrow> st);
          st = (case simple_poll st of
                  Some p \<Rightarrow> st\<lparr>simple_poll := None, calls := calls st @ [Simple_poll_free p]\<rparr>
                | None \<Rightarrow> st)
      in st\<lparr>calls := calls st @ [Free_ctx]\<rparr>)"

text \<open>
  The events the daemon sends while the worker thread sits in
  \<^verbatim>\<open>avahi_simple_poll_loop\<close>: each is a call of one of the two callbacks.
\<close>

datatype avahi_event =
    Client_event AvahiClient AvahiClientState
  | Group_event AvahiEntryGroup AvahiEntryGroupState

definition dispatch ::
  "(string \<Rightarrow> string) \<Rightarrow> avahi_event \<Rightarrow> dns_sd_service_t list \<Rightarrow> avahi_state
     \<Rightarrow> (dns_sd_service_t list \<times> avahi_state) option" where
  "dispatch alt ev ctx st =
     (case ev of
        Client_event c state \<Rightarrow> client_callback alt c state ctx st
      | Group_event g state \<Rightarrow> entry_group_callback alt g state ctx st)"

text \<open>
  \<^verbatim>\<open>avahi_mainloop\<close> after the given events have arrived: the poll loop leaves as soon as
  the quit flag is set, and \<^verbatim>\<open>cleanup\<close> follows; with no event left and the flag not set
  the thread is still waiting (\<open>avahi_thread\<close> stays set).
\<close>

fun avahi_mainloop ::
  "(string \<Rightarrow> string) \<Rightarrow> avahi_event list \<Rightarrow> dns_sd_service_t list \<Rightarrow> avahi_state
     \<Rightarrow> avahi_state option" where
  "avahi_mainloop alt evs ctx st =
     (if poll_quit st then Some ((cleanup ctx st)\<lparr>avahi_thread := None\<rparr>)
      else case evs of
             [] \<Rightarrow> Some (st\<lparr>avahi_thread := Some ctx\<rparr>)
           | ev # evs' \<Rightarrow>
               (case dispatch alt ev ctx st of
                  None \<Rightarrow> None
                | Some (ctx', st') \<Rightarrow> avahi_mainloop alt evs' ctx' st'))"

text \<open>
  The callbacks that \<^verbatim>\<open>avahi_client_new\<close> makes before it returns, then the whole of
  \<^verbatim>\<open>dns_sd_announce\<close> of this backend.  \<open>gh\<close> is what \<^verbatim>\<open>gethostname\<close> gives.
\<close>

fun client_new_callbacks ::
  "(string \<Rightarrow> string) \<Rightarrow> AvahiClient \<Rightarrow> AvahiClientState list \<Rightarrow> dns_sd_service_t list
     \<Rightarrow> avahi_state \<Rightarrow> (dns_sd_service_t list \<times> avahi_state) option" where
  "client_new_callbacks alt c [] ctx st = Some (ctx, st)"
| "client_new_callbacks alt c (state # states) ctx st =
     (case client_callback alt c state ctx st of
        None \<Rightarrow> None
      | Some (ctx', st') \<Rightarrow> client_new_callbacks alt c states ctx' st')"

definition dns_sd_announce_avahi ::
  "(string \<Rightarrow> string) \<Rightarrow> nat \<Rightarrow> misc_config_s \<Rightarrow> string option \<Rightarrow> avahi_state
     \<Rightarrow> avahi_state option" where
  "dns_sd_announce_avahi alt K mc gh st =
     (if dns_sd_service_count K mc = 0 then Some st
      else
        let ctx = dns_sd_create_context K mc gh;
            st = st\<lparr>simple_poll := simple_poll_new_result st,
                    calls := calls st @ [Simple_poll_new]\<rparr>
        in case simple_poll st of
             None \<Rightarrow> Some (cleanup ctx st)
           | Some p \<Rightarrow>
               let out = client_new_result st;
                   st = st\<lparr>calls := calls st @ [Client_new p]\<rparr>
               in (case client_new_callbacks alt (cn_client out) (cn_events out) ctx st of
                     None \<Rightarrow> None
                   | Some (ctx, st) \<Rightarrow>
                       let error = (case cn_error out of Some e \<Rightarrow> e | None \<Rightarrow> 0);
                           returned = (case cn_error out of
                                         Some e \<Rightarrow> None
                                       | None \<Rightarrow> Some (cn_client out));
                           st = st\<lparr>client := returned\<rparr>
                       in if error = 0
                          then Some (st\<lparr>avahi_thread := Some ctx,
                                        calls := calls st @ [Pthread_create]\<rparr>)
                          else Some (cleanup ctx st)))"

subsection \<open>The DNS-SD API and the system as seen by \<^verbatim>\<open>dns_sd_macos.c\<close>\<close>

definition kDNSServiceErr_NoError :: int where
  "kDNSServiceErr_NoError = 0"

definition DNS_SD_TYPE_NAME_AGWPE :: string where
  "DNS_SD_TYPE_NAME_AGWPE = ''AGWPE''"

definition DNS_SD_TYPE_NAME_KISS :: string where
  "DNS_SD_TYPE_NAME_KISS = ''KISS TCP''"

type_synonym DNSServiceRef = nat

text \<open>\<^verbatim>\<open>htons\<close> on the little-endian hosts this backend runs on: the port as 16 bits, its two bytes swapped.\<close>

definition htons :: "int \<Rightarrow> 16 word" where
  "htons p = (let w = (word_of_int p :: 16 word) in push_bit 8 w OR drop_bit 8 w)"

text \<open>
  Console output: the colour set by \<^verbatim>\<open>text_color_set\<close> and the message of the
  \<^verbatim>\<open>dw_printf\<close> that follows, one constructor per format string of the file, with the
  arguments that are part of this model.
\<close>

datatype dw_color = DW_COLOR_INFO | DW_COLOR_ERROR

datatype dw_message =
    Announcing string int "string option"
  | Failed_to_announce "string option" int
  | Successfully_registered string string
  | Failed_to_register string string int
  | Error_from_the_API int nat
  | Pipe_returned
  | Select_returned

datatype macos_call =
    DNSServiceRegister "string option" string "16 word" nat
  | DNSServiceRefSockFD DNSServiceRef
  | Sys_pipe
  | Sys_select
  | DNSServiceProcessResult DNSServiceRef
  | DNSServiceRefDeallocate DNSServiceRef
  | Sys_free_ctx
  | Sys_free_svcs
  | Sys_close int
  | Sys_write int
  | Sys_pthread_create

record dns_sd_services_t =
  svcs_ctx :: "dns_sd_service_t list"
  sd_ref :: "DNSServiceRef option list"
  sd_fd :: "int list"

text \<open>What \<^verbatim>\<open>select\<close> returns: a positive count with the descriptors left set in
  \<^verbatim>\<open>readfds\<close>, or a count that is not positive, with \<^verbatim>\<open>errno\<close> equal to \<^verbatim>\<open>EINTR\<close> or not.\<close>

datatype select_outcome = Ready "int list" | Not_ready bool

text \<open>
  The state: the static \<^verbatim>\<open>stop_fd\<close> pair, the worker thread (with its argument while
  it runs), and the world outside: the descriptors that are open, the trace of calls, the
  console, and what the daemon and the system will answer.  \<open>register_results\<close> gives, call
  after call, the error code of \<^verbatim>\<open>DNSServiceRegister\<close> and the reference it stores through
  \<^verbatim>\<open>&sdRef\<close>; \<open>process_results\<close> gives for each \<^verbatim>\<open>DNSServiceProcessResult\<close> the
  registration callbacks it makes (error code, name, type) and its own error code.
\<close>

record macos_state =
  stop_fd :: "int \<times> int"
  event_thread :: "dns_sd_services_t option"
  open_fds :: "int list"
  sys_calls :: "macos_call list"
  printed :: "(dw_color \<times> dw_message) list"
  register_results :: "nat \<Rightarrow> int \<times> DNSServiceRef"
  sock_fd :: "DNSServiceRef \<Rightarrow> int"
  pipe_result :: "(int \<times> int) option"
  process_results :: "nat \<Rightarrow> (int \<times> string \<times> string) list \<times> int"

definition dw_printf :: "dw_color \<Rightarrow> dw_message \<Rightarrow> macos_state \<Rightarrow> macos_state" where
  "dw_printf col msg st = st\<lparr>printed := printed st @ [(col, msg)]\<rparr>"

definition dns_service_register ::
  "string option \<Rightarrow> string \<Rightarrow> 16 word \<Rightarrow> nat \<Rightarrow> macos_state
     \<Rightarrow> (int \<times> DNSServiceRef) \<times> macos_state" where
  "dns_service_register nm ty p context st =
     (register_results st 0,
      st\<lparr>register_results := (\<lambda>n. register_results st (Suc n)),
         sys_calls := sys_calls st @ [DNSServiceRegister nm ty p context]\<rparr>)"

subsection \<open>\<^verbatim>\<open>dns_sd_macos.c\<close>\<close>

definition registration_callback ::
  "int \<Rightarrow> string \<Rightarrow> string \<Rightarrow> macos_state \<Rightarrow> macos_state" where
  "registration_callback errorCode nm regType st =
     (let svc_type =
            (if take (length DNS_SD_TYPE_AGWPE) regType = DNS_SD_TYPE_AGWPE
             then DNS_SD_TYPE_NAME_AGWPE
             else if take (length DNS_SD_TYPE_KISS) regType = DNS_SD_TYPE_KISS
             then DNS_SD_TYPE_NAME_KISS
             else regType)
      in if errorCode = kDNSServiceErr_NoError
         then dw_printf DW_COLOR_INFO (Successfully_registered svc_type nm) st
         else dw_printf DW_COLOR_ERROR (Failed_to_register svc_type nm errorCode) st)"

text \<open>One round of the \<^verbatim>\<open>for\<close> loop of \<^verbatim>\<open>dns_sd_announce\<close> of this backend.\<close>

definition register_step ::
  "nat \<Rightarrow> dns_sd_services_t \<times> macos_state \<Rightarrow> dns_sd_services_t \<times> macos_state" where
  "register_step i = (\<lambda>(svcs, st).
     let c = svcs_ctx svcs ! i in
     if port c = 0 then (svcs, st)
     else case dns_service_register (name c)
                 (if i = 0 then DNS_SD_TYPE_AGWPE else DNS_SD_TYPE_KISS) (htons (port c)) i st of
            ((err, sdRef), st') \<Rightarrow>
              if err = kDNSServiceErr_NoError
              then (svcs\<lparr>sd_ref := (sd_ref svcs)[i := Some sdRef]\<rparr>,
                    dw_printf DW_COLOR_INFO
                      (Announcing (if i = 0 then DNS_SD_TYPE_NAME_AGWPE else DNS_SD_TYPE_NAME_KISS)
                         (port c) (name c)) st')
              else (svcs, dw_printf DW_COLOR_ERROR (Failed_to_announce (name c) err) st'))"

definition dns_sd_announce_macos ::
  "nat \<Rightarrow> misc_config_s \<Rightarrow> string option \<Rightarrow> macos_state \<Rightarrow> macos_state" where
  "dns_sd_announce_macos K mc gh st =
     (if dns_sd_service_count K mc = 0 then st
      else
        let c = dns_sd_create_context K mc gh;
            svcs = \<lparr>svcs_ctx = c,
                    sd_ref = replicate (MAX_DNS_SD_SERVICES K) None,
                    sd_fd = replicate (MAX_DNS_SD_SERVICES K) 0\<rparr>
        in case fold register_step [0..<MAX_DNS_SD_SERVICES K] (svcs, st) of
             (svcs', st') \<Rightarrow>
               st'\<lparr>event_thread := Some svcs',
                   sys_calls := sys_calls st' @ [Sys_pthread_create]\<rparr>)"

definition dns_sd_term_macos :: "macos_state \<Rightarrow> macos_state" where
  "dns_sd_term_macos st =
     (if snd (stop_fd st) \<noteq> - 1
      then st\<lparr>sys_calls := sys_calls st @ [Sys_write (snd (stop_fd st))]\<rparr>
      else st)"

text \<open>
  \<^verbatim>\<open>process_events\<close>, part by part.  The variable \<^verbatim>\<open>last_fd\<close> only sizes the
  descriptor set of \<^verbatim>\<open>select\<close> and is left out.
\<close>

definition populate_fds :: "dns_sd_services_t \<Rightarrow> macos_state \<Rightarrow> dns_sd_services_t \<times> macos_state" where
  "populate_fds svcs st =
     fold (\<lambda>i (svcs, st).
             case sd_ref svcs ! i of
               Some r \<Rightarrow> (svcs\<lparr>sd_fd := (sd_fd svcs)[i := sock_fd st r]\<rparr>,
                          st\<lparr>sys_calls := sys_calls st @ [DNSServiceRefSockFD r]\<rparr>)
             | None \<Rightarrow> (svcs, st))
       [0..<length (sd_ref svcs)] (svcs, st)"

definition create_pipe :: "macos_state \<Rightarrow> macos_state" where
  "create_pipe st =
     (let st = st\<lparr>sys_calls := sys_calls st @ [Sys_pipe]\<rparr>
      in case pipe_result st of
           Some (r, w) \<Rightarrow> st\<lparr>stop_fd := (r, w), open_fds := open_fds st @ [r, w]\<rparr>
         | None \<Rightarrow> dw_printf DW_COLOR_ERROR Pipe_returned st)"

definition dns_service_process_result :: "DNSServiceRef \<Rightarrow> macos_state \<Rightarrow> int \<times> macos_state" where
  "dns_service_process_result r st =
     (case process_results st 0 of
        (callbacks, err) \<Rightarrow>
          (err,
           fold (\<lambda>(errorCode, nm, regType). registration_callback errorCode nm regType) callbacks
             (st\<lparr>process_results := (\<lambda>n. process_results st (Suc n)),
                 sys_calls := sys_calls st @ [DNSServiceProcessResult r]\<rparr>)))"

text \<open>The inner loop over the services with events; the flag is \<^verbatim>\<open>stop_now\<close>.\<close>

definition check_services ::
  "dns_sd_services_t \<Rightarrow> int list \<Rightarrow> macos_state \<Rightarrow> bool \<times> macos_state" where
  "check_services svcs readfds st =
     fold (\<lambda>i (stop_now, st).
             if sd_fd svcs ! i > 0 \<and> sd_fd svcs ! i \<in> set readfds
             then (case sd_ref svcs ! i of
                     None \<Rightarrow> (stop_now, st)
                   | Some r \<Rightarrow>
                       (case dns_service_process_result r st of
                          (err, st') \<Rightarrow>
                            if err \<noteq> kDNSServiceErr_NoError
                            then (True, dw_printf DW_COLOR_ERROR (Error_from_the_API err i) st')
                            else (stop_now, st')))
             else (stop_now, st))
       [0..<length (sd_fd svcs)] (False, st)"

text \<open>
  The \<^verbatim>\<open>while (!stop_now)\<close> loop over the outcomes of the successive \<^verbatim>\<open>select\<close> calls;
  the flag returned says whether the loop was left (with no outcome left the thread is
  still inside \<^verbatim>\<open>select\<close>).
\<close>

fun select_loop ::
  "dns_sd_services_t \<Rightarrow> select_outcome list \<Rightarrow> macos_state \<Rightarrow> bool \<times> macos_state" where
  "select_loop svcs [] st = (False, st)"
| "select_loop svcs (out # outs) st =
     (let st = st\<lparr>sys_calls := sys_calls st @ [Sys_select]\<rparr>
      in case out of
           Ready readfds \<Rightarrow>
             if fst (stop_fd st) \<in> set readfds then (True, st)
             else (case check_services svcs readfds st of
                     (stop_now, st') \<Rightarrow>
                       if stop_now then (True, st') else select_loop svcs outs st')
         | Not_ready eintr \<Rightarrow>
             let st' = dw_printf DW_COLOR_ERROR Select_returned st
             in if \<not> eintr then (True, st') else select_loop svcs outs st')"

definition sys_close :: "int \<Rightarrow> macos_state \<Rightarrow> macos_state" where
  "sys_close fd st =
     st\<lparr>open_fds := removeAll fd (open_fds st), sys_calls := sys_calls st @ [Sys_close fd]\<rparr>"

definition clean_up :: "dns_sd_services_t \<Rightarrow> macos_state \<Rightarrow> macos_state" where
  "clean_up svcs st =
     (let st = st\<lparr>sys_calls := sys_calls st @
                  map DNSServiceRefDeallocate (List.map_filter (\<lambda>r. r) (sd_ref svcs)) @
                  [Sys_free_ctx, Sys_free_svcs]\<rparr>;
          st = sys_close (fst (stop_fd st)) st;
          st = sys_close (snd (stop_fd st)) st
      in st\<lparr>event_thread := None\<rparr>)"

definition process_events ::
  "dns_sd_services_t \<Rightarrow> select_outcome list \<Rightarrow> macos_state \<Rightarrow> macos_state" where
  "process_events svcs outs st =
     (case populate_fds svcs st of
        (svcs', st1) \<Rightarrow>
          (case select_loop svcs' outs (create_pipe st1) of
             (True, st2) \<Rightarrow> clean_up svcs' st2
           | (False, st2) \<Rightarrow> st2\<lparr>event_thread := Some svcs'\<rparr>))"

subsection \<open>Notions used in the statements\<close>

text \<open>
  A slot is active when it has a non-zero port and a name, inert when its port is zero.
\<close>

definition active :: "dns_sd_service_t \<Rightarrow> bool" where
  "active s = (port s \<noteq> 0 \<and> name s \<noteq> None)"

definition inert :: "dns_sd_service_t \<Rightarrow> bool" where
  "inert s = (port s = 0)"

text \<open>In every slot the name is non-\<^verbatim>\<open>NULL\<close> exactly when the port is non-zero.\<close>

definition name_iff_port :: "dns_sd_service_t list \<Rightarrow> bool" where
  "name_iff_port ctx = list_all (\<lambda>s. (name s \<noteq> None) = (port s \<noteq> 0)) ctx"

text \<open>What \<^verbatim>\<open>rename_all_services\<close> does to one slot.\<close>

definition renamed :: "(string \<Rightarrow> string) \<Rightarrow> dns_sd_service_t \<Rightarrow> dns_sd_service_t" where
  "renamed alt s =
     (case name s of Some prev_name \<Rightarrow> s\<lparr>name := Some (alt prev_name)\<rparr> | None \<Rightarrow> s)"

text \<open>
  The slots \<^verbatim>\<open>dns_sd_create_context\<close> fills: slot 0 for AGWPE, then one slot for each
  KISS port that is configured, in the order of the configuration.
\<close>

definition agwpe_service :: "misc_config_s \<Rightarrow> string \<Rightarrow> dns_sd_service_t" where
  "agwpe_service mc hostname =
     (if agwpe_port mc \<noteq> 0
      then \<lparr>port = agwpe_port mc, channel = - 1,
            name = Some (make_service_name (dns_sd_name mc) hostname (- 1))\<rparr>
      else calloc_service)"

definition kiss_service :: "misc_config_s \<Rightarrow> string \<Rightarrow> nat \<Rightarrow> dns_sd_service_t" where
  "kiss_service mc hostname i =
     \<lparr>port = kiss_port mc i, channel = kiss_chan mc i,
      name = Some (make_service_name (dns_sd_name mc) hostname (kiss_chan mc i))\<rparr>"

definition kiss_configured :: "misc_config_s \<Rightarrow> nat \<Rightarrow> nat list" where
  "kiss_configured mc n = filter (\<lambda>i. kiss_port mc i \<noteq> 0) [0..<n]"

text \<open>
  Configurations for the examples: the ports Dire Wolf listens on when the configuration
  file names none (AGWPE on 8000, KISS on 8001 for all channels), with room for two KISS
  ports; and a configuration with no port at all.
\<close>

definition default_config :: misc_config_s where
  "default_config =
     \<lparr>agwpe_port = 8000, kiss_port = (!) [8001, 0], kiss_chan = (!) [- 1, 0],
      dns_sd_name = []\<rparr>"

definition no_ports_config :: misc_config_s where
  "no_ports_config =
     \<lparr>agwpe_port = 0, kiss_port = (!) [0, 0], kiss_chan = (!) [- 1, - 1], dns_sd_name = []\<rparr>"

definition two_channel_config :: misc_config_s where
  "two_channel_config =
     \<lparr>agwpe_port = 8000, kiss_port = (!) [8001, 8002], kiss_chan = (!) [0, 1],
      dns_sd_name = ''TNC''\<rparr>"

text \<open>The range of a C \<^verbatim>\<open>int\<close> of 32 bits.\<close>

definition int32 :: "int \<Rightarrow> bool" where
  "int32 i = (- (2 ^ 31) \<le> i \<and> i < 2 ^ 31)"

text \<open>
  The type string \<^verbatim>\<open>create_service\<close> passes for its flag, and the call it makes for a
  service under a given name.
\<close>

definition service_type :: "bool \<Rightarrow> string" where
  "service_type is_agwpe = (if is_agwpe then DNS_SD_TYPE_AGWPE else DNS_SD_TYPE_KISS)"

definition add_call ::
  "AvahiEntryGroup \<Rightarrow> dns_sd_service_t \<Rightarrow> bool \<Rightarrow> string \<Rightarrow> avahi_call" where
  "add_call g svc is_agwpe nm =
     Entry_group_add_service g nm (service_type is_agwpe) (uint16_t (port svc))"

text \<open>
  A state for the examples: nothing announced yet, and a daemon that accepts everything:
  the poll object is 1, the client is 2 and reports \<^verbatim>\<open>AVAHI_CLIENT_S_RUNNING\<close> while it
  is created, the entry groups are numbered from 0.
\<close>

definition avahi_start :: avahi_state where
  "avahi_start =
     \<lparr>group = None, simple_poll = None, client = None, avahi_thread = None,
      poll_quit = False, entries = [], calls = [],
      add_service_results = (\<lambda>n. AVAHI_OK),
      commit_results = (\<lambda>n. AVAHI_OK),
      entry_group_new_results = (\<lambda>n. Some n),
      simple_poll_new_result = Some 1,
      client_new_result = \<lparr>cn_client = 2, cn_events = [AVAHI_CLIENT_S_RUNNING], cn_error = None\<rparr>,
      indeterminate_result = 0\<rparr>"

text \<open>A stand-in for \<^verbatim>\<open>avahi_alternative_service_name\<close> in the examples.\<close>

definition numbered :: "string \<Rightarrow> string" where
  "numbered s = s @ '' #2''"

definition macos_start :: macos_state where
  "macos_start =
     \<lparr>stop_fd = (- 1, - 1), event_thread = None, open_fds = [0, 1, 2], sys_calls = [],
      printed = [],
      register_results = (\<lambda>n. (kDNSServiceErr_NoError, 100 + n)),
      sock_fd = (\<lambda>r. 5 + int r - 100),
      pipe_result = Some (3, 4),
      process_results = (\<lambda>n. ([], kDNSServiceErr_NoError))\<rparr>"

text \<open>
  States for the examples of the Avahi backend: the session is set up (poll object 1,
  client 2, entry group 0 of that client) and holds the batch of a configuration; the
  daemon answers the adds to come with the codes listed (\<open>- 1\<close> is
  \<^verbatim>\<open>AVAHI_ERR_FAILURE\<close>).
\<close>

definition example_group :: AvahiEntryGroup where
  "example_group = AvahiEntryGroup 0 2"

definition running :: "int list \<Rightarrow> avahi_state" where
  "running answers =
     avahi_start\<lparr>group := Some example_group, simple_poll := Some 1, client := Some 2,
                 add_service_results := (!) answers\<rparr>"

definition default_batch :: "dns_sd_service_t list" where
  "default_batch = dns_sd_create_context 2 default_config (Some ''host'')"

definition two_channel_batch :: "dns_sd_service_t list" where
  "two_channel_batch = dns_sd_create_context 2 two_channel_config (Some ''host'')"

text \<open>What an observer sees of a result of the add loop: the code, the names, the calls.\<close>

definition seen ::
  "(int \<times> dns_sd_service_t list \<times> avahi_state) option
     \<Rightarrow> (int \<times> string option list \<times> avahi_call list) option" where
  "seen r = map_option (\<lambda>(e, ctx, st). (e, map name ctx, calls st)) r"

text \<open>And of a result of \<^verbatim>\<open>create_services\<close> or of a callback: the names, the calls, the
  quit flag.\<close>

definition seen_round ::
  "(dns_sd_service_t list \<times> avahi_state) option
     \<Rightarrow> (string option list \<times> avahi_call list \<times> bool) option" where
  "seen_round r = map_option (\<lambda>(ctx, st). (map name ctx, calls st, poll_quit st)) r"

text \<open>
  One add for each slot of the given indices that has a non-zero port and a name, in the
  order of the indices, under the name the slot has; and the services those adds put into
  the group.
\<close>

fun adds_of :: "AvahiEntryGroup \<Rightarrow> dns_sd_service_t list \<Rightarrow> nat list \<Rightarrow> avahi_call list" where
  "adds_of g ctx [] = []"
| "adds_of g ctx (i # is) =
     (case name (ctx ! i) of
        Some nm \<Rightarrow> if port (ctx ! i) \<noteq> 0 then [add_call g (ctx ! i) (i = 0) nm] else []
      | None \<Rightarrow> []) @ adds_of g ctx is"

fun entries_of ::
  "dns_sd_service_t list \<Rightarrow> nat list \<Rightarrow> (string \<times> string \<times> 16 word) list" where
  "entries_of ctx [] = []"
| "entries_of ctx (i # is) =
     (case name (ctx ! i) of
        Some nm \<Rightarrow>
          if port (ctx ! i) \<noteq> 0 then [(nm, service_type (i = 0), uint16_t (port (ctx ! i)))] else []
      | None \<Rightarrow> []) @ entries_of ctx is"

text \<open>The number of slots with a non-zero port among the given indices.\<close>

definition ports_set :: "dns_sd_service_t list \<Rightarrow> nat list \<Rightarrow> nat" where
  "ports_set ctx is = length (filter (\<lambda>i. port (ctx ! i) \<noteq> 0) is)"

text \<open>
  For the per-service backend: the indices below \<open>n\<close> of the slots with a non-zero port;
  the call of \<^verbatim>\<open>DNSServiceRegister\<close> for slot \<open>i\<close>; and, given the answers the daemon has
  in store (the answer for slot \<open>i\<close> is the one numbered by the slots with a port before
  it), the reference kept for slot \<open>i\<close> and the message printed for it.
\<close>

definition with_port :: "dns_sd_service_t list \<Rightarrow> nat \<Rightarrow> nat list" where
  "with_port c n = filter (\<lambda>i. port (c ! i) \<noteq> 0) [0..<n]"

definition register_call :: "dns_sd_service_t list \<Rightarrow> nat \<Rightarrow> macos_call" where
  "register_call c i =
     DNSServiceRegister (name (c ! i)) (if i = 0 then DNS_SD_TYPE_AGWPE else DNS_SD_TYPE_KISS)
       (htons (port (c ! i))) i"

definition answer_for ::
  "dns_sd_service_t list \<Rightarrow> (nat \<Rightarrow> int \<times> DNSServiceRef) \<Rightarrow> nat \<Rightarrow> int \<times> DNSServiceRef" where
  "answer_for c answers i = answers (length (with_port c i))"

definition kept_ref ::
  "dns_sd_service_t list \<Rightarrow> (nat \<Rightarrow> int \<times> DNSServiceRef) \<Rightarrow> nat \<Rightarrow> DNSServiceRef option" where
  "kept_ref c answers i =
     (if port (c ! i) \<noteq> 0 \<and> fst (answer_for c answers i) = kDNSServiceErr_NoError
      then Some (snd (answer_for c answers i)) else None)"

definition announce_message ::
  "dns_sd_service_t list \<Rightarrow> (nat \<Rightarrow> int \<times> DNSServiceRef) \<Rightarrow> nat \<Rightarrow> dw_color \<times> dw_message" where
  "announce_message c answers i =
     (if fst (answer_for c answers i) = kDNSServiceErr_NoError
      then (DW_COLOR_INFO,
            Announcing (if i = 0 then DNS_SD_TYPE_NAME_AGWPE else DNS_SD_TYPE_NAME_KISS)
              (port (c ! i)) (name (c ! i)))
      else (DW_COLOR_ERROR, Failed_to_announce (name (c ! i)) (fst (answer_for c answers i))))"

text \<open>The calls of \<^verbatim>\<open>DNSServiceRegister\<close> in a trace.\<close>

fun is_register :: "macos_call \<Rightarrow> bool" where
  "is_register (DNSServiceRegister nm ty p context) = True"
| "is_register other = False"

definition register_calls :: "macos_state \<Rightarrow> macos_call list" where
  "register_calls st = filter is_register (sys_calls st)"

text \<open>
  Sessions of the per-service backend for the examples: the default configuration
  announced from \<open>macos_start\<close>; the same with a daemon that refuses the second
  registration (\<open>- 65537\<close> is \<^verbatim>\<open>kDNSServiceErr_Unknown\<close>); and the first after its worker
  thread has run and has left its loop because \<^verbatim>\<open>select\<close> failed.
\<close>

definition announced_session :: macos_state where
  "announced_session = dns_sd_announce_macos 2 default_config (Some ''host'') macos_start"

definition second_refused :: macos_state where
  "second_refused = macos_start\<lparr>register_results := (!) [(kDNSServiceErr_NoError, 100), (- 65537, 0)]\<rparr>"

definition terminated_session :: macos_state where
  "terminated_session =
     (case event_thread announced_session of
        Some svcs \<Rightarrow> process_events svcs [Not_ready False] announced_session
      | None \<Rightarrow> announced_session)"

text \<open>
  A round of registration in which the daemon answers the adds of slot \<open>i\<close> with \<open>ks i\<close>
  collisions and then accepts the service: the answers it gives to the adds for the slots
  of the given indices, in their order; the adds the code is to make, \<open>ks i + 1\<close> for slot
  \<open>i\<close>, each under the alternative of the name before; the services the group then holds;
  and the batch after the round, in which slot \<open>i\<close> has the \<open>ks i\<close>-th alternative of its
  name and nothing else has changed.  Slots without a port take no part.
\<close>

fun round_answers :: "(nat \<Rightarrow> nat) \<Rightarrow> dns_sd_service_t list \<Rightarrow> nat list \<Rightarrow> int list" where
  "round_answers ks ctx [] = []"
| "round_answers ks ctx (i # is) =
     (if port (ctx ! i) \<noteq> 0 then replicate (ks i) AVAHI_ERR_COLLISION @ [AVAHI_OK] else [])
       @ round_answers ks ctx is"

fun round_calls ::
  "(string \<Rightarrow> string) \<Rightarrow> AvahiEntryGroup \<Rightarrow> (nat \<Rightarrow> nat) \<Rightarrow> dns_sd_service_t list \<Rightarrow> nat list
     \<Rightarrow> avahi_call list" where
  "round_calls alt g ks ctx [] = []"
| "round_calls alt g ks ctx (i # is) =
     (case name (ctx ! i) of
        Some nm \<Rightarrow>
          if port (ctx ! i) \<noteq> 0
          then map (\<lambda>j. add_call g (ctx ! i) (i = 0) ((alt ^^ j) nm)) [0..<Suc (ks i)]
          else []
      | None \<Rightarrow> []) @ round_calls alt g ks ctx is"

fun round_entries ::
  "(string \<Rightarrow> string) \<Rightarrow> (nat \<Rightarrow> nat) \<Rightarrow> dns_sd_service_t list \<Rightarrow> nat list
     \<Rightarrow> (string \<times> string \<times> 16 word) list" where
  "round_entries alt ks ctx [] = []"
| "round_entries alt ks ctx (i # is) =
     (case name (ctx ! i) of
        Some nm \<Rightarrow>
          if port (ctx ! i) \<noteq> 0
          then [((alt ^^ ks i) nm, service_type (i = 0), uint16_t (port (ctx ! i)))]
          else []
      | None \<Rightarrow> []) @ round_entries alt ks ctx is"

definition round_batch ::
  "(string \<Rightarrow> string) \<Rightarrow> (nat \<Rightarrow> nat) \<Rightarrow> dns_sd_service_t list \<Rightarrow> nat list
     \<Rightarrow> dns_sd_service_t list" where
  "round_batch alt ks ctx is =
     map (\<lambda>j. if j \<in> set is \<and> port (ctx ! j) \<noteq> 0
              then (ctx ! j)\<lparr>name := map_option (alt ^^ ks j) (name (ctx ! j))\<rparr>
              else ctx ! j)
       [0..<length ctx]"

text \<open>The calls by which \<^verbatim>\<open>cleanup\<close> releases what a state holds, in the order made.\<close>

definition releases :: "avahi_state \<Rightarrow> avahi_call list" where
  "releases st =
     (case group st of Some g \<Rightarrow> [Entry_group_free g] | None \<Rightarrow> [])
     @ (case client st of Some c \<Rightarrow> [Client_free c] | None \<Rightarrow> [])
     @ (case simple_poll st of Some p \<Rightarrow> [Simple_poll_free p] | None \<Rightarrow> [])
     @ [Free_ctx]"

text \<open>
  A configuration with two KISS ports, both for all channels, and no AGWPE port.
\<close>

definition two_kiss_ports_config :: misc_config_s where
  "two_kiss_ports_config =
     \<lparr>agwpe_port = 0, kiss_port = (!) [8001, 8002], kiss_chan = (!) [- 1, - 1],
      dns_sd_name = []\<rparr>"

text \<open>The calls of \<^verbatim>\<open>avahi_entry_group_commit\<close> in a trace.\<close>

fun is_commit :: "avahi_call \<Rightarrow> bool" where
  "is_commit (Entry_group_commit g) = True"
| "is_commit other = False"

text \<open>
  What an observer sees of the worker thread's end: the calls, and the three static
  variables and the thread.
\<close>

definition seen_end ::
  "avahi_state option
     \<Rightarrow> (avahi_call list \<times> AvahiEntryGroup option \<times> AvahiClient option
          \<times> AvahiSimplePoll option \<times> dns_sd_service_t list option) option" where
  "seen_end r =
     map_option (\<lambda>st. (calls st, group st, client st, simple_poll st, avahi_thread st)) r"

text \<open>
  The worker thread that \<^verbatim>\<open>dns_sd_announce\<close> has started, if it has started one, after
  the given events have arrived.
\<close>

definition worker_after ::
  "(string \<Rightarrow> string) \<Rightarrow> avahi_event list \<Rightarrow> avahi_state option \<Rightarrow> avahi_state option" where
  "worker_after alt evs r =
     (case r of
        None \<Rightarrow> None
      | Some st \<Rightarrow> (case avahi_thread st of
                     None \<Rightarrow> Some st
                   | Some ctx \<Rightarrow> avahi_mainloop alt evs ctx st))"

section \<open>Properties\<close>

subsection \<open>The batch of services\<close>




lemma kiss_configured_length: "length (kiss_configured mc n) \<le> n"
  unfolding kiss_configured_def
  by (metis diff_zero length_filter_le length_upt)

lemma kiss_configured_Suc:
  "kiss_configured mc (Suc n) =
     kiss_configured mc n @ (if kiss_port mc n \<noteq> 0 then [n] else [])"
  by (simp add: kiss_configured_def)

lemma update_filler:
  "(xs @ replicate (Suc r) z)[length xs := v] = xs @ v # replicate r z"
  by (simp add: list_update_append)

lemma kiss_loop:
  "n \<le> K \<Longrightarrow>
   fold (kiss_step mc h) [0..<n] (Suc 0, a # replicate K calloc_service) =
     (Suc (length (kiss_configured mc n)),
      a # map (kiss_service mc h) (kiss_configured mc n)
        @ replicate (K - length (kiss_configured mc n)) calloc_service)"
proof (induction n)
  case 0
  then show ?case by (simp add: kiss_configured_def)
next
  case (Suc n)
  let ?m = "length (kiss_configured mc n)"
  let ?xs = "map (kiss_service mc h) (kiss_configured mc n)"
  have m: "?m \<le> n" by (rule kiss_configured_length)
  with Suc.prems obtain r where r: "K - ?m = Suc r" "K - Suc ?m = r"
    by (metis Suc_diff_Suc Suc_le_lessD diff_Suc_eq_diff_pred le_imp_less_Suc less_le_trans not_less_eq)
  have IH: "fold (kiss_step mc h) [0..<n] (Suc 0, a # replicate K calloc_service) =
      (Suc ?m, a # ?xs @ replicate (K - ?m) calloc_service)"
    using Suc by simp
  have nth: "(?xs @ replicate (Suc r) calloc_service) ! ?m = calloc_service"
    by (simp add: nth_append)
  have upd: "(?xs @ replicate (Suc r) calloc_service)[?m := v] = ?xs @ v # replicate r calloc_service" for v
    using update_filler [of ?xs r calloc_service v] by simp
  have "fold (kiss_step mc h) [0..<Suc n] (Suc 0, a # replicate K calloc_service) =
      kiss_step mc h n (Suc ?m, a # ?xs @ replicate (Suc r) calloc_service)"
    by (simp add: IH r)
  also have "\<dots> = (Suc (length (kiss_configured mc (Suc n))),
      a # map (kiss_service mc h) (kiss_configured mc (Suc n))
        @ replicate (K - length (kiss_configured mc (Suc n))) calloc_service)"
    by (simp add: kiss_step_def r kiss_configured_Suc kiss_service_def calloc_service_def
        list_update_append nth_append)
  finally show ?case .
qed

lemma dns_sd_create_context_eq:
  "dns_sd_create_context K mc gh =
     agwpe_service mc (local_hostname gh)
       # map (kiss_service mc (local_hostname gh)) (kiss_configured mc K)
       @ replicate (K - length (kiss_configured mc K)) calloc_service"
proof -
  have upd: "(replicate (Suc K) calloc_service)[0 := v] = v # replicate K calloc_service" for v
    by simp
  have "dns_sd_create_context K mc gh =
      snd (fold (kiss_step mc (local_hostname gh)) [0..<K]
             (1, agwpe_service mc (local_hostname gh) # replicate K calloc_service))"
    unfolding dns_sd_create_context_def MAX_DNS_SD_SERVICES_def Let_def agwpe_service_def
    by (simp add: upd) (simp add: calloc_service_def)
  then show ?thesis
    by (simp add: kiss_loop)
qed

lemma count_loop:
  "fold (\<lambda>i count. if kiss_port mc i \<noteq> 0 then count + 1 else count) [0..<n] (c::int) =
     c + int (length (kiss_configured mc n))"
  by (induction n) (simp_all add: kiss_configured_def)

lemma dns_sd_service_count_eq:
  "dns_sd_service_count K mc =
     (if agwpe_port mc \<noteq> 0 then 1 else 0) + int (length (kiss_configured mc K))"
  by (simp add: dns_sd_service_count_def count_loop)


lemma index_loop:
  "n \<le> length xs \<Longrightarrow>
   fold (\<lambda>i ys. ys[i := f (ys ! i)]) [0..<n] xs = map f (take n xs) @ drop n xs"
proof (induction n)
  case 0
  then show ?case by simp
next
  case (Suc n)
  then have n: "n < length xs" by simp
  have "fold (\<lambda>i ys. ys[i := f (ys ! i)]) [0..<Suc n] xs =
      (map f (take n xs) @ drop n xs)[n := f ((map f (take n xs) @ drop n xs) ! n)]"
    using Suc by simp
  also have "\<dots> = (map f (take n xs) @ xs ! n # drop (Suc n) xs)[n := f (xs ! n)]"
    using n by (simp add: nth_append Cons_nth_drop_Suc)
  also have "\<dots> = map f (take n xs) @ f (xs ! n) # drop (Suc n) xs"
    using n by (simp add: list_update_append)
  also have "\<dots> = map f (take (Suc n) xs) @ drop (Suc n) xs"
    using n by (simp add: take_Suc_conv_app_nth)
  finally show ?case .
qed

lemma rename_all_services_eq: "rename_all_services alt ctx = map (renamed alt) ctx"
proof -
  have step: "(\<lambda>i ctx. case name (ctx ! i) of
                      Some prev_name \<Rightarrow> ctx[i := (ctx ! i)\<lparr>name := Some (alt prev_name)\<rparr>]
                    | None \<Rightarrow> ctx) = (\<lambda>i ys. ys[i := renamed alt (ys ! i)])"
    by (auto simp: fun_eq_iff renamed_def split: option.splits)
  show ?thesis
    unfolding rename_all_services_def step by (simp add: index_loop)
qed

lemma active_agwpe_service: "active (agwpe_service mc h) = (agwpe_port mc \<noteq> 0)"
  by (simp add: active_def agwpe_service_def calloc_service_def)

lemma filter_active_kiss:
  "filter active (map (kiss_service mc h) (kiss_configured mc K)) =
     map (kiss_service mc h) (kiss_configured mc K)"
  by (rule filter_True) (auto simp: active_def kiss_service_def kiss_configured_def)

lemma filter_inert_kiss:
  "filter inert (map (kiss_service mc h) (kiss_configured mc K)) = []"
  by (auto simp: filter_empty_conv inert_def kiss_service_def kiss_configured_def)

lemma active_count:
  "int (length (filter active (dns_sd_create_context K mc gh))) = dns_sd_service_count K mc"
  by (simp add: dns_sd_create_context_eq dns_sd_service_count_eq active_agwpe_service
      filter_active_kiss) (simp add: active_def calloc_service_def)

lemma inert_filter:
  "filter inert (dns_sd_create_context K mc gh) =
     replicate (MAX_DNS_SD_SERVICES K - nat (dns_sd_service_count K mc)) calloc_service"
proof -
  have m: "length (kiss_configured mc K) \<le> K" by (rule kiss_configured_length)
  have z: "filter inert (replicate r calloc_service) = replicate r calloc_service" for r
    by (simp add: inert_def calloc_service_def)
  have a: "inert (agwpe_service mc h) = (agwpe_port mc = 0)" for h
    by (simp add: inert_def agwpe_service_def calloc_service_def)
  show ?thesis
  proof (cases "agwpe_port mc = 0")
    case True
    then have "agwpe_service mc (local_hostname gh) = calloc_service"
      by (simp add: agwpe_service_def)
    moreover have "inert calloc_service"
      by (simp add: inert_def calloc_service_def)
    ultimately show ?thesis
      using True m
      by (simp add: dns_sd_create_context_eq dns_sd_service_count_eq filter_inert_kiss z
          MAX_DNS_SD_SERVICES_def Suc_diff_le flip: replicate_Suc)
  next
    case False
    with m show ?thesis
      by (simp add: dns_sd_create_context_eq dns_sd_service_count_eq filter_inert_kiss z a
          MAX_DNS_SD_SERVICES_def)
  qed
qed

lemma create_context_length: "length (dns_sd_create_context K mc gh) = MAX_DNS_SD_SERVICES K"
  using kiss_configured_length [of mc K]
  by (simp add: dns_sd_create_context_eq MAX_DNS_SD_SERVICES_def)

lemma create_context_name_iff_port: "name_iff_port (dns_sd_create_context K mc gh)"
  by (auto simp: name_iff_port_def dns_sd_create_context_eq list_all_iff agwpe_service_def
      kiss_service_def calloc_service_def kiss_configured_def)

lemma renamed_fields:
  "port (renamed alt s) = port s" "channel (renamed alt s) = channel s"
  "(name (renamed alt s) = None) = (name s = None)"
  by (auto simp: renamed_def split: option.splits)

lemma rename_all_name_iff_port:
  "name_iff_port ctx \<Longrightarrow> name_iff_port (rename_all_services alt ctx)"
  by (simp add: name_iff_port_def rename_all_services_eq list_all_iff renamed_fields
      del: not_None_eq)

lemma active_name:
  "s \<in> set (dns_sd_create_context K mc gh) \<Longrightarrow> active s \<Longrightarrow>
   name s = Some (make_service_name (dns_sd_name mc) (local_hostname gh) (channel s))"
  by (auto simp: dns_sd_create_context_eq agwpe_service_def kiss_service_def active_def
      calloc_service_def split: if_splits)

lemma count_zero_iff:
  "(dns_sd_service_count K mc = 0) = (agwpe_port mc = 0 \<and> (\<forall>i<K. kiss_port mc i = 0))"
  by (auto simp: dns_sd_service_count_eq kiss_configured_def filter_empty_conv)

subsection \<open>Names and channels\<close>

lemma digit_cases: "d < (10::nat) \<Longrightarrow> d \<in> {0, 1, 2, 3, 4, 5, 6, 7, 8, 9}"
  by auto

lemma digit_char_value: "d < 10 \<Longrightarrow> of_char (''0123456789'' ! d) - 48 = (d::nat)"
  by (drule digit_cases) auto

lemma digit_char_in: "d < 10 \<Longrightarrow> ''0123456789'' ! d \<in> set ''0123456789''"
  by (drule digit_cases) auto

lemma dec_nat_not_empty: "dec_nat n \<noteq> []"
  by (subst dec_nat.simps) simp

lemma dec_nat_digits: "set (dec_nat n) \<subseteq> set ''0123456789''"
proof (induction n rule: dec_nat.induct)
  case (1 n)
  show ?case
  proof (cases "n < 10")
    case True
    then show ?thesis
      using digit_char_in [of n] by (subst dec_nat.simps) simp
  next
    case False
    have "n mod 10 < 10" by simp
    then have "''0123456789'' ! (n mod 10) \<in> set ''0123456789''"
      by (rule digit_char_in)
    with False 1 show ?thesis
      by (subst dec_nat.simps) simp
  qed
qed

lemma dec_nat_value: "foldl (\<lambda>a c. 10 * a + (of_char c - 48)) 0 (dec_nat n) = n"
proof (induction n rule: dec_nat.induct)
  case (1 n)
  show ?case
  proof (cases "n < 10")
    case True
    then show ?thesis
      using digit_char_value [of n] by (subst dec_nat.simps) simp
  next
    case False
    have "n mod 10 < 10" by simp
    then have "of_char (''0123456789'' ! (n mod 10)) - 48 = n mod 10"
      by (rule digit_char_value)
    with False 1 show ?thesis
      by (subst dec_nat.simps) simp
  qed
qed

lemma dec_nat_inj: "dec_nat m = dec_nat n \<Longrightarrow> m = n"
  by (metis dec_nat_value)

lemma dec_nat_length: "0 < k \<Longrightarrow> n < 10 ^ k \<Longrightarrow> length (dec_nat n) \<le> k"
proof (induction n arbitrary: k rule: dec_nat.induct)
  case (1 n)
  show ?case
  proof (cases "n < 10")
    case True
    with 1 show ?thesis by (subst dec_nat.simps) simp
  next
    case False
    obtain k' where k: "k = Suc k'"
      using \<open>0 < k\<close> by (cases k) auto
    have k': "0 < k'"
    proof (rule ccontr)
      assume "\<not> 0 < k'"
      then have "k = 1" using k by simp
      with False \<open>n < 10 ^ k\<close> show False by simp
    qed
    have "n < 10 * 10 ^ k'"
      using \<open>n < 10 ^ k\<close> k by simp
    then have "n div 10 < 10 ^ k'"
      by (simp add: less_mult_imp_div_less mult.commute)
    with False k' have "length (dec_nat (n div 10)) \<le> k'"
      by (rule "1.IH")
    with False k show ?thesis by (subst dec_nat.simps) simp
  qed
qed

lemma dec_int_inj: "dec_int i = dec_int j \<Longrightarrow> i = j"
proof -
  have minus: "CHR ''-'' \<notin> set (dec_nat n)" for n
    using dec_nat_digits [of n] by auto
  have hd: "hd (dec_nat n) \<noteq> CHR ''-''" for n
    using minus [of n] dec_nat_not_empty [of n] by (cases "dec_nat n") auto
  assume eq: "dec_int i = dec_int j"
  show ?thesis
  proof (cases "i < 0"; cases "j < 0")
    assume "i < 0" "j < 0"
    with eq have "nat (- i) = nat (- j)"
      by (auto simp: dec_int_def dest: dec_nat_inj)
    with \<open>i < 0\<close> \<open>j < 0\<close> show ?thesis by simp
  next
    assume "i < 0" "\<not> j < 0"
    with eq hd [of "nat j"] show ?thesis
      by (auto simp: dec_int_def dest: arg_cong [where f = hd])
  next
    assume "\<not> i < 0" "j < 0"
    with eq hd [of "nat i"] show ?thesis
      by (auto simp: dec_int_def dest: arg_cong [where f = hd])
  next
    assume "\<not> i < 0" "\<not> j < 0"
    with eq have "nat i = nat j"
      by (auto simp: dec_int_def dest: dec_nat_inj)
    with \<open>\<not> i < 0\<close> \<open>\<not> j < 0\<close> show ?thesis by simp
  qed
qed

lemma dec_int_no_space: "CHR '' '' \<notin> set (dec_int i)"
  using dec_nat_digits [of "nat i"] dec_nat_digits [of "nat (- i)"]
  by (auto simp: dec_int_def)

lemma dec_int_length: "- (2 ^ 31) \<le> i \<Longrightarrow> i < 2 ^ 31 \<Longrightarrow> length (dec_int i) \<le> 11"
proof -
  assume r: "- (2 ^ 31) \<le> i" "i < 2 ^ 31"
  have "nat i < 10 ^ 10" "nat (- i) < 10 ^ 10"
    using r by simp_all
  then have "length (dec_nat (nat i)) \<le> 10" "length (dec_nat (nat (- i))) \<le> 10"
    by (simp_all add: dec_nat_length)
  then show ?thesis by (simp add: dec_int_def)
qed

lemma take_on: "4 \<le> n \<Longrightarrow> take n ('' on '' @ h) = '' on '' @ take (n - 4) h"
proof -
  assume "4 \<le> n"
  then have n: "n = 4 + (n - 4)" by simp
  have "take (4 + (n - 4)) ('' on '' @ h)
      = take 4 ('' on '' @ h) @ take (n - 4) (drop 4 ('' on '' @ h))"
    by (rule take_add)
  also have "\<dots> = '' on '' @ take (n - 4) h"
    by simp
  finally show ?thesis using n by simp
qed

lemma make_service_name_shape:
  assumes b: "length b < 64" and c: "length (dec_int c) \<le> 11"
  shows "\<exists>T. make_service_name b h c =
            (if b \<noteq> [] then b else ''Dire Wolf'')
              @ (if c \<noteq> - 1 then '' channel '' @ dec_int c else []) @ T
          \<and> (T = [] \<or> (\<exists>T'. T = '' on '' @ T'))"
proof -
  let ?s0 = "if b \<noteq> [] then b else ''Dire Wolf''"
  let ?A = "if c \<noteq> - 1 then '' channel '' @ dec_int c else []"
  have s0: "(if b \<noteq> [] then strlcpy b 128 else ''Dire Wolf'') = ?s0"
    using b by (simp add: strlcpy_def)
  have l0: "length ?s0 < 64" using b by simp
  have s1: "(if c \<noteq> - 1 then strlcat ?s0 (snprintf 64 ('' channel '' @ dec_int c)) 128 else ?s0)
      = ?s0 @ ?A"
    using l0 c by (simp add: strlcat_def snprintf_def)
  have l1: "length (?s0 @ ?A) \<le> 83"
    using l0 c by auto
  show ?thesis
  proof (cases "h = []")
    case True
    then have "make_service_name b h c = ?s0 @ ?A @ []"
      unfolding make_service_name_def Let_def s0 s1 by simp
    then show ?thesis by blast
  next
    case False
    have "make_service_name b h c = strlcat (?s0 @ ?A) (snprintf 64 ('' on '' @ h)) 128"
      unfolding make_service_name_def Let_def s0 s1 using False by simp
    also have "\<dots> = (?s0 @ ?A) @ take (127 - length (?s0 @ ?A)) (take 63 ('' on '' @ h))"
      using l1 by (simp add: strlcat_def snprintf_def)
    also have "take (127 - length (?s0 @ ?A)) (take 63 ('' on '' @ h))
        = take (min (127 - length (?s0 @ ?A)) 63) ('' on '' @ h)"
      by (simp only: take_take)
    also have "\<dots> = '' on '' @ take (min (127 - length (?s0 @ ?A)) 63 - 4) h"
      using l1 by (intro take_on) simp
    finally have "make_service_name b h c =
        ?s0 @ ?A @ '' on '' @ take (min (127 - length (?s0 @ ?A)) 63 - 4) h"
      by simp
    then show ?thesis by blast
  qed
qed

lemma digits_then_tail:
  assumes d: "CHR '' '' \<notin> set d" and T: "T = [] \<or> (\<exists>T'. T = '' on '' @ T')"
  shows "takeWhile (\<lambda>x. x \<noteq> CHR '' '') (d @ T) = d"
proof -
  have "takeWhile (\<lambda>x. x \<noteq> CHR '' '') (d @ T) = d @ takeWhile (\<lambda>x. x \<noteq> CHR '' '') T"
    using d by (intro takeWhile_append2) auto
  moreover have "takeWhile (\<lambda>x. x \<noteq> CHR '' '') T = []"
    using T by (elim disjE exE) simp_all
  ultimately show ?thesis by simp
qed

lemma make_service_name_inj:
  assumes b: "length b < 64"
    and c1: "- (2 ^ 31) \<le> c1" "c1 < 2 ^ 31" and c2: "- (2 ^ 31) \<le> c2" "c2 < 2 ^ 31"
    and eq: "make_service_name b h c1 = make_service_name b h c2"
  shows "c1 = c2"
proof -
  let ?s0 = "if b \<noteq> [] then b else ''Dire Wolf''"
  from make_service_name_shape [OF b dec_int_length [OF c1], of h]
  obtain T1 where n1: "make_service_name b h c1 =
      ?s0 @ (if c1 \<noteq> - 1 then '' channel '' @ dec_int c1 else []) @ T1"
    and T1: "T1 = [] \<or> (\<exists>T'. T1 = '' on '' @ T')" by blast
  from make_service_name_shape [OF b dec_int_length [OF c2], of h]
  obtain T2 where n2: "make_service_name b h c2 =
      ?s0 @ (if c2 \<noteq> - 1 then '' channel '' @ dec_int c2 else []) @ T2"
    and T2: "T2 = [] \<or> (\<exists>T'. T2 = '' on '' @ T')" by blast
  from eq n1 n2 have e: "(if c1 \<noteq> - 1 then '' channel '' @ dec_int c1 else []) @ T1
      = (if c2 \<noteq> - 1 then '' channel '' @ dec_int c2 else []) @ T2"
    by simp
  show ?thesis
  proof (cases "c1 = - 1"; cases "c2 = - 1")
    assume "c1 = - 1" "c2 = - 1"
    then show ?thesis by simp
  next
    assume "c1 = - 1" "c2 \<noteq> - 1"
    with e T1 show ?thesis by auto
  next
    assume "c1 \<noteq> - 1" "c2 = - 1"
    with e T2 show ?thesis by auto
  next
    assume "c1 \<noteq> - 1" "c2 \<noteq> - 1"
    with e have "dec_int c1 @ T1 = dec_int c2 @ T2" by simp
    then have "takeWhile (\<lambda>x. x \<noteq> CHR '' '') (dec_int c1 @ T1)
        = takeWhile (\<lambda>x. x \<noteq> CHR '' '') (dec_int c2 @ T2)" by simp
    then have "dec_int c1 = dec_int c2"
      by (simp only: digits_then_tail [OF dec_int_no_space T1]
          digits_then_tail [OF dec_int_no_space T2])
    then show ?thesis by (rule dec_int_inj)
  qed
qed

subsection \<open>Claims about the batch\<close>


text \<open>
  C10.  In the batch that \<^verbatim>\<open>dns_sd_create_context\<close> returns, the name of a slot is
  non-\<^verbatim>\<open>NULL\<close> if and only if its port is non-zero, and a slot with port zero is all
  zero, as \<^verbatim>\<open>calloc\<close> left it.  \<^verbatim>\<open>rename_all_services\<close> keeps names and ports
  together: it never touches a port and turns a name into a name, \<^verbatim>\<open>NULL\<close> into
  \<^verbatim>\<open>NULL\<close>.
\<close>

theorem name_non_null_iff_port_non_zero:
  "name_iff_port (dns_sd_create_context K mc gh)
   \<and> (\<forall>s \<in> set (dns_sd_create_context K mc gh). port s = 0 \<longrightarrow> s = calloc_service)
   \<and> (name_iff_port ctx \<longrightarrow> name_iff_port (rename_all_services alt ctx))
   \<and> map port (rename_all_services alt ctx) = map port ctx
   \<and> map (\<lambda>s. name s = None) (rename_all_services alt ctx) = map (\<lambda>s. name s = None) ctx"
proof (intro conjI impI ballI)
  show "name_iff_port (dns_sd_create_context K mc gh)"
    by (rule create_context_name_iff_port)
  show "s = calloc_service" if "s \<in> set (dns_sd_create_context K mc gh)" "port s = 0" for s
  proof -
    from that have "s \<in> set (filter inert (dns_sd_create_context K mc gh))"
      by (simp add: inert_def)
    then show ?thesis
      by (simp add: inert_filter)
  qed
  show "name_iff_port (rename_all_services alt ctx)" if "name_iff_port ctx"
    using that by (rule rename_all_name_iff_port)
  show "map port (rename_all_services alt ctx) = map port ctx"
    by (simp add: rename_all_services_eq renamed_fields comp_def)
  show "map (\<lambda>s. name s = None) (rename_all_services alt ctx) = map (\<lambda>s. name s = None) ctx"
    by (simp add: rename_all_services_eq renamed_fields comp_def)
qed

theorem name_non_null_iff_port_non_zero_witness:
  "name_iff_port (dns_sd_create_context 2 default_config (Some ''host''))
   \<and> name_iff_port
        (rename_all_services (\<lambda>s. s @ '' #2'') (dns_sd_create_context 2 default_config (Some ''host'')))
   \<and> map name
        (rename_all_services (\<lambda>s. s @ '' #2'') (dns_sd_create_context 2 default_config (Some ''host'')))
       = [Some ''Dire Wolf on host #2'', Some ''Dire Wolf on host #2'', None]"
proof -
  have "rename_all_services (\<lambda>s. s @ '' #2'') (dns_sd_create_context 2 default_config (Some ''host''))
      = [\<lparr>port = 8000, channel = - 1, name = Some ''Dire Wolf on host #2''\<rparr>,
         \<lparr>port = 8001, channel = - 1, name = Some ''Dire Wolf on host #2''\<rparr>,
         \<lparr>port = 0, channel = 0, name = None\<rparr>]"
    by code_simp
  then show ?thesis
    using name_non_null_iff_port_non_zero
      [of 2 default_config "Some ''host''" "dns_sd_create_context 2 default_config (Some ''host'')"
          "\<lambda>s. s @ '' #2''"]
    by simp
qed

text \<open>
  C5.  On a batch in which names and ports go together as above,
  \<^verbatim>\<open>rename_all_services\<close> gives every active slot the alternative of its name and leaves
  every inert slot exactly as it was; no port and no channel changes.  When the
  alternative of a name is never that name, every active slot's name changes.
\<close>

theorem rename_all_services_active_only:
  assumes "name_iff_port ctx"
  shows "length (rename_all_services alt ctx) = length ctx
    \<and> (\<forall>i < length ctx.
          port (rename_all_services alt ctx ! i) = port (ctx ! i)
        \<and> channel (rename_all_services alt ctx ! i) = channel (ctx ! i)
        \<and> (port (ctx ! i) = 0 \<longrightarrow> rename_all_services alt ctx ! i = ctx ! i)
        \<and> (port (ctx ! i) \<noteq> 0 \<longrightarrow>
             (\<exists>prev_name. name (ctx ! i) = Some prev_name
                \<and> name (rename_all_services alt ctx ! i) = Some (alt prev_name)
                \<and> (alt prev_name \<noteq> prev_name \<longrightarrow>
                     name (rename_all_services alt ctx ! i) \<noteq> name (ctx ! i)))))"
proof -
  have "\<forall>i < length ctx. (name (ctx ! i) \<noteq> None) = (port (ctx ! i) \<noteq> 0)"
    using assms by (simp add: name_iff_port_def list_all_length)
  then show ?thesis
    by (auto simp: rename_all_services_eq renamed_def split: option.splits)
qed

theorem rename_all_services_active_only_witness:
  "name_iff_port (dns_sd_create_context 2 default_config None)
   \<and> dns_sd_create_context 2 default_config None
       = [\<lparr>port = 8000, channel = - 1, name = Some ''Dire Wolf''\<rparr>,
          \<lparr>port = 8001, channel = - 1, name = Some ''Dire Wolf''\<rparr>,
          \<lparr>port = 0, channel = 0, name = None\<rparr>]
   \<and> length (rename_all_services (\<lambda>s. s @ '' #2'') (dns_sd_create_context 2 default_config None)) = 3
   \<and> name (rename_all_services (\<lambda>s. s @ '' #2'') (dns_sd_create_context 2 default_config None) ! 0)
       = Some ''Dire Wolf #2''
   \<and> name (rename_all_services (\<lambda>s. s @ '' #2'') (dns_sd_create_context 2 default_config None) ! 1)
       = Some ''Dire Wolf #2''
   \<and> rename_all_services (\<lambda>s. s @ '' #2'') (dns_sd_create_context 2 default_config None) ! 2
       = \<lparr>port = 0, channel = 0, name = None\<rparr>"
proof -
  have inv: "name_iff_port (dns_sd_create_context 2 default_config None)"
    by (rule create_context_name_iff_port)
  have c: "dns_sd_create_context 2 default_config None
      = [\<lparr>port = 8000, channel = - 1, name = Some ''Dire Wolf''\<rparr>,
         \<lparr>port = 8001, channel = - 1, name = Some ''Dire Wolf''\<rparr>,
         \<lparr>port = 0, channel = 0, name = None\<rparr>]"
    by code_simp
  note r = rename_all_services_active_only [OF inv, of "\<lambda>s. s @ '' #2''"]
  have len: "length (dns_sd_create_context 2 default_config None) = 3"
    by (simp add: c)
  have "(0::nat) < 3" "(1::nat) < 3" "(2::nat) < 3" by simp_all
  with r [THEN conjunct2, unfolded len, rule_format, of 0]
       r [THEN conjunct2, unfolded len, rule_format, of 1]
       r [THEN conjunct2, unfolded len, rule_format, of 2]
       r [THEN conjunct1, unfolded len] inv
  show ?thesis
    by (auto simp: c)
qed

text \<open>
  What \<^verbatim>\<open>dns_sd_create_context\<close> builds, for every configuration: with N non-zero ports
  the batch has exactly N active slots and \<^verbatim>\<open>MAX_DNS_SD_SERVICES\<close> - N inert ones, all of
  them zero.  The name of an active slot is made of the base name, the host name and the
  channel of the slot only: two active slots with the same channel have the same name,
  and two active slots with different channels have different names, provided the base
  name has fewer than 64 characters and the channels are 32-bit integers.
\<close>

theorem create_context_slots_and_names:
  "int (length (filter active (dns_sd_create_context K mc gh))) = dns_sd_service_count K mc
   \<and> length (dns_sd_create_context K mc gh) = MAX_DNS_SD_SERVICES K
   \<and> filter inert (dns_sd_create_context K mc gh)
       = replicate (MAX_DNS_SD_SERVICES K - nat (dns_sd_service_count K mc)) calloc_service
   \<and> (\<forall>i < MAX_DNS_SD_SERVICES K. \<forall>j < MAX_DNS_SD_SERVICES K.
         active (dns_sd_create_context K mc gh ! i) \<and> active (dns_sd_create_context K mc gh ! j) \<longrightarrow>
           (channel (dns_sd_create_context K mc gh ! i) = channel (dns_sd_create_context K mc gh ! j)
              \<longrightarrow> name (dns_sd_create_context K mc gh ! i) = name (dns_sd_create_context K mc gh ! j))
         \<and> (length (dns_sd_name mc) < 64
              \<and> int32 (channel (dns_sd_create_context K mc gh ! i))
              \<and> int32 (channel (dns_sd_create_context K mc gh ! j))
              \<and> channel (dns_sd_create_context K mc gh ! i) \<noteq> channel (dns_sd_create_context K mc gh ! j)
              \<longrightarrow> name (dns_sd_create_context K mc gh ! i) \<noteq> name (dns_sd_create_context K mc gh ! j)))"
proof (intro conjI allI impI)
  let ?ctx = "dns_sd_create_context K mc gh"
  show "int (length (filter active ?ctx)) = dns_sd_service_count K mc"
    by (rule active_count)
  show "length ?ctx = MAX_DNS_SD_SERVICES K"
    by (rule create_context_length)
  show "filter inert ?ctx
      = replicate (MAX_DNS_SD_SERVICES K - nat (dns_sd_service_count K mc)) calloc_service"
    by (rule inert_filter)
  fix i j
  assume i: "i < MAX_DNS_SD_SERVICES K" and j: "j < MAX_DNS_SD_SERVICES K"
    and a: "active (?ctx ! i) \<and> active (?ctx ! j)"
  have "?ctx ! i \<in> set ?ctx" "?ctx ! j \<in> set ?ctx"
    using i j by (simp_all add: create_context_length)
  with a have ni: "name (?ctx ! i)
      = Some (make_service_name (dns_sd_name mc) (local_hostname gh) (channel (?ctx ! i)))"
    and nj: "name (?ctx ! j)
      = Some (make_service_name (dns_sd_name mc) (local_hostname gh) (channel (?ctx ! j)))"
    by (simp_all add: active_name)
  show "name (?ctx ! i) = name (?ctx ! j)" if "channel (?ctx ! i) = channel (?ctx ! j)"
    using that ni nj by simp
  show "name (?ctx ! i) \<noteq> name (?ctx ! j)"
    if "length (dns_sd_name mc) < 64 \<and> int32 (channel (?ctx ! i)) \<and> int32 (channel (?ctx ! j))
        \<and> channel (?ctx ! i) \<noteq> channel (?ctx ! j)"
  proof
    assume "name (?ctx ! i) = name (?ctx ! j)"
    with ni nj have "make_service_name (dns_sd_name mc) (local_hostname gh) (channel (?ctx ! i))
        = make_service_name (dns_sd_name mc) (local_hostname gh) (channel (?ctx ! j))"
      by simp
    with that have "channel (?ctx ! i) = channel (?ctx ! j)"
      by (intro make_service_name_inj [of "dns_sd_name mc" _ _ "local_hostname gh"])
        (simp_all add: int32_def)
    with that show False by simp
  qed
qed

theorem create_context_slots_and_names_witness:
  "dns_sd_service_count 2 two_channel_config = 3
   \<and> length (filter active (dns_sd_create_context 2 two_channel_config (Some ''host''))) = 3
   \<and> filter inert (dns_sd_create_context 2 two_channel_config (Some ''host'')) = []
   \<and> map channel (dns_sd_create_context 2 two_channel_config (Some ''host'')) = [- 1, 0, 1]
   \<and> name (dns_sd_create_context 2 two_channel_config (Some ''host'') ! 1)
       \<noteq> name (dns_sd_create_context 2 two_channel_config (Some ''host'') ! 2)"
proof -
  have c: "dns_sd_create_context 2 two_channel_config (Some ''host'')
      = [\<lparr>port = 8000, channel = - 1, name = Some ''TNC on host''\<rparr>,
         \<lparr>port = 8001, channel = 0, name = Some ''TNC channel 0 on host''\<rparr>,
         \<lparr>port = 8002, channel = 1, name = Some ''TNC channel 1 on host''\<rparr>]"
    by code_simp
  have n: "dns_sd_service_count 2 two_channel_config = 3"
    by code_simp
  have h: "(1::nat) < MAX_DNS_SD_SERVICES 2" "(2::nat) < MAX_DNS_SD_SERVICES 2"
    "active (dns_sd_create_context 2 two_channel_config (Some ''host'') ! 1)"
    "active (dns_sd_create_context 2 two_channel_config (Some ''host'') ! 2)"
    "length (dns_sd_name two_channel_config) < 64"
    "int32 (channel (dns_sd_create_context 2 two_channel_config (Some ''host'') ! 1))"
    "int32 (channel (dns_sd_create_context 2 two_channel_config (Some ''host'') ! 2))"
    "channel (dns_sd_create_context 2 two_channel_config (Some ''host'') ! 1)
       \<noteq> channel (dns_sd_create_context 2 two_channel_config (Some ''host'') ! 2)"
    by (simp_all add: c MAX_DNS_SD_SERVICES_def active_def int32_def)
      (simp add: two_channel_config_def)
  note t = create_context_slots_and_names [of 2 two_channel_config "Some ''host''"]
  have "name (dns_sd_create_context 2 two_channel_config (Some ''host'') ! 1)
       \<noteq> name (dns_sd_create_context 2 two_channel_config (Some ''host'') ! 2)"
    using t [THEN conjunct2, THEN conjunct2, THEN conjunct2, rule_format, OF h(1) h(2),
        THEN conjunct2] h by blast
  moreover have "length (filter active (dns_sd_create_context 2 two_channel_config (Some ''host''))) = 3"
    using t [THEN conjunct1] n by simp
  moreover have "filter inert (dns_sd_create_context 2 two_channel_config (Some ''host'')) = []"
    using t [THEN conjunct2, THEN conjunct2, THEN conjunct1] n
    by (simp add: MAX_DNS_SD_SERVICES_def)
  ultimately show ?thesis
    using n by (simp add: c)
qed

text \<open>
  C4.  The batch has N active slots and \<^verbatim>\<open>MAX_DNS_SD_SERVICES\<close> - N inert ones, but the
  names of its active slots are not pairwise distinct.  With two KISS ports, 8001 and
  8002, both for all channels, and no AGWPE port, the batch of three slots has one inert
  slot and two active ones; both are announced with the type \<^verbatim>\<open>_kiss-tnc._tcp\<close> and both
  are named \<^verbatim>\<open>Dire Wolf on host\<close>.  With the default configuration (AGWPE on 8000, KISS
  on 8001 for all channels) the AGWPE slot and the KISS slot have that same name.
\<close>

theorem same_channel_slots_share_a_name:
  "dns_sd_service_count 2 two_kiss_ports_config = 2
   \<and> dns_sd_create_context 2 two_kiss_ports_config (Some ''host'')
       = [\<lparr>port = 0, channel = 0, name = None\<rparr>,
          \<lparr>port = 8001, channel = - 1, name = Some ''Dire Wolf on host''\<rparr>,
          \<lparr>port = 8002, channel = - 1, name = Some ''Dire Wolf on host''\<rparr>]
   \<and> length (filter active (dns_sd_create_context 2 two_kiss_ports_config (Some ''host''))) = 2
   \<and> length (filter inert (dns_sd_create_context 2 two_kiss_ports_config (Some ''host''))) = 1
   \<and> service_type ((1::nat) = 0) = ''_kiss-tnc._tcp''
   \<and> service_type ((2::nat) = 0) = ''_kiss-tnc._tcp''
   \<and> \<not> distinct (map name
           (filter active (dns_sd_create_context 2 two_kiss_ports_config (Some ''host''))))
   \<and> dns_sd_create_context 2 default_config (Some ''host'')
       = [\<lparr>port = 8000, channel = - 1, name = Some ''Dire Wolf on host''\<rparr>,
          \<lparr>port = 8001, channel = - 1, name = Some ''Dire Wolf on host''\<rparr>,
          \<lparr>port = 0, channel = 0, name = None\<rparr>]
   \<and> \<not> distinct (map name
           (filter active (dns_sd_create_context 2 default_config (Some ''host''))))"
  by code_simp

subsection \<open>The Avahi backend\<close>

lemma AVAHI_codes: "AVAHI_ERR_COLLISION \<noteq> AVAHI_OK" "AVAHI_OK \<noteq> AVAHI_ERR_COLLISION"
  by (simp_all add: AVAHI_OK_def AVAHI_ERR_COLLISION_def)

text \<open>The state after the adds of one service: \<open>k\<close> collisions, then the answer \<open>k\<close>.\<close>

lemma create_service_collisions:
  assumes "name svc = Some nm"
    and "\<forall>j<k. add_service_results st j = AVAHI_ERR_COLLISION"
    and "add_service_results st k \<noteq> AVAHI_ERR_COLLISION"
  shows "create_service alt g svc is_agwpe st =
     Some (add_service_results st k,
           svc\<lparr>name := Some ((alt ^^ k) nm)\<rparr>,
           st\<lparr>add_service_results := (\<lambda>n. add_service_results st (Suc k + n)),
              entries := (if add_service_results st k = AVAHI_OK
                          then entries st @ [((alt ^^ k) nm, service_type is_agwpe, uint16_t (port svc))]
                          else entries st),
              calls := calls st @ map (\<lambda>j. add_call g svc is_agwpe ((alt ^^ j) nm)) [0..<Suc k]\<rparr>)"
  using assms
proof (induction k arbitrary: svc nm st)
  case 0
  then show ?case
    by (subst create_service.simps)
      (simp add: avahi_entry_group_add_service_def Let_def service_type_def add_call_def)
next
  case (Suc k)
  let ?svc = "svc\<lparr>name := Some (alt nm)\<rparr>"
  let ?st = "st\<lparr>add_service_results := (\<lambda>n. add_service_results st (Suc n)),
               calls := calls st @ [add_call g svc is_agwpe nm]\<rparr>"
  have first: "add_service_results st 0 = AVAHI_ERR_COLLISION"
    using Suc.prems by simp
  have step: "create_service alt g svc is_agwpe st = create_service alt g ?svc is_agwpe ?st"
    using Suc.prems(1) first
    by (subst create_service.simps)
      (simp add: avahi_entry_group_add_service_def Let_def service_type_def add_call_def
        AVAHI_codes)
  have "create_service alt g ?svc is_agwpe ?st =
     Some (add_service_results ?st k,
           ?svc\<lparr>name := Some ((alt ^^ k) (alt nm))\<rparr>,
           ?st\<lparr>add_service_results := (\<lambda>n. add_service_results ?st (Suc k + n)),
              entries := (if add_service_results ?st k = AVAHI_OK
                          then entries ?st @ [((alt ^^ k) (alt nm), service_type is_agwpe, uint16_t (port ?svc))]
                          else entries ?st),
              calls := calls ?st @ map (\<lambda>j. add_call g ?svc is_agwpe ((alt ^^ j) (alt nm))) [0..<Suc k]\<rparr>)"
    using Suc.prems by (intro Suc.IH) simp_all
  also have "\<dots> =
     Some (add_service_results st (Suc k),
           svc\<lparr>name := Some ((alt ^^ Suc k) nm)\<rparr>,
           st\<lparr>add_service_results := (\<lambda>n. add_service_results st (Suc (Suc k) + n)),
              entries := (if add_service_results st (Suc k) = AVAHI_OK
                          then entries st @ [((alt ^^ Suc k) nm, service_type is_agwpe, uint16_t (port svc))]
                          else entries st),
              calls := calls st @ map (\<lambda>j. add_call g svc is_agwpe ((alt ^^ j) nm)) [0..<Suc (Suc k)]\<rparr>)"
  proof -
    have m: "map (\<lambda>j. add_call g svc is_agwpe ((alt ^^ j) nm)) [0..<Suc (Suc k)]
        = add_call g svc is_agwpe nm
            # map (\<lambda>j. add_call g svc is_agwpe ((alt ^^ j) (alt nm))) [0..<Suc k]"
      by (simp only: map_upt_Suc [of _ "Suc k"]) (simp add: funpow_swap1)
    show ?thesis
      by (simp only: m) (simp add: funpow_swap1 add_call_def)
  qed
  finally show ?case using step by simp
qed

text \<open>The call returns only with an answer that is not a collision, so it does not
  return when every answer is one.\<close>

lemma create_service_result:
  assumes "create_service alt g svc is_agwpe st = Some y"
  shows "fst y \<noteq> AVAHI_ERR_COLLISION"
  using assms
proof (induction rule: create_service.raw_induct [rotated 1, consumes 1])
  case (1 create_service alt g svc is_agwpe st y)
  then show ?case
    by (auto split: option.splits prod.splits if_splits)
qed

lemma create_service_no_answer:
  assumes "\<forall>j. add_service_results st j = AVAHI_ERR_COLLISION"
  shows "create_service alt g svc is_agwpe st = None"
proof (rule ccontr)
  assume "create_service alt g svc is_agwpe st \<noteq> None"
  then obtain y where "create_service alt g svc is_agwpe st = Some y" by auto
  then have "\<exists>j. add_service_results st j \<noteq> AVAHI_ERR_COLLISION"
  proof (induction rule: create_service.raw_induct [rotated 1, consumes 1])
    case (1 create_service alt g svc is_agwpe st y)
    show ?case
    proof (cases "add_service_results st 0 = AVAHI_ERR_COLLISION")
      case False
      then show ?thesis by blast
    next
      case True
      with 1(2) obtain nm where
        "create_service alt g (svc\<lparr>name := Some (alt nm)\<rparr>) is_agwpe
           (snd (avahi_entry_group_add_service g nm
                  (if is_agwpe then DNS_SD_TYPE_AGWPE else DNS_SD_TYPE_KISS)
                  (uint16_t (port svc)) st)) = Some y"
        by (auto simp: avahi_entry_group_add_service_def Let_def split: option.splits)
      from 1(1) [OF this] show ?thesis
        by (auto simp: avahi_entry_group_add_service_def Let_def)
    qed
  qed
  with assms show False by simp
qed

lemma add_each_service_step:
  assumes "port (ctx ! i) \<noteq> 0" and "name (ctx ! i) = Some nm"
    and "\<forall>j<k. add_service_results st j = AVAHI_ERR_COLLISION"
    and "add_service_results st k \<noteq> AVAHI_ERR_COLLISION"
  shows "add_each_service alt g (i # is) result ctx st =
     (let e = add_service_results st k;
          ctx' = ctx[i := (ctx ! i)\<lparr>name := Some ((alt ^^ k) nm)\<rparr>];
          st' = st\<lparr>add_service_results := (\<lambda>n. add_service_results st (Suc k + n)),
                  entries := (if e = AVAHI_OK
                              then entries st @ [((alt ^^ k) nm, service_type (i = 0), uint16_t (port (ctx ! i)))]
                              else entries st),
                  calls := calls st
                    @ map (\<lambda>j. add_call g (ctx ! i) (i = 0) ((alt ^^ j) nm)) [0..<Suc k]\<rparr>
      in if e \<noteq> AVAHI_OK then Some (e, ctx', st') else add_each_service alt g is e ctx' st')"
  using assms(1) by (simp add: create_service_collisions [OF assms(2-4)] Let_def)

lemma add_each_service_no_answer:
  assumes "port (ctx ! i) \<noteq> 0"
    and "\<forall>j. add_service_results st j = AVAHI_ERR_COLLISION"
  shows "add_each_service alt g (i # is) result ctx st = None"
  using assms by (simp add: create_service_no_answer)

lemma add_each_service_no_port:
  "ports_set ctx is = 0 \<Longrightarrow> add_each_service alt g is r ctx st = Some (r, ctx, st)"
  by (induction "is") (auto simp: ports_set_def split: if_splits)

lemma add_each_service_append:
  "add_each_service alt g (xs @ ys) r ctx st =
     (case add_each_service alt g xs r ctx st of
        None \<Rightarrow> None
      | Some (r', ctx', st') \<Rightarrow>
          if ports_set ctx xs \<noteq> 0 \<and> r' \<noteq> AVAHI_OK then Some (r', ctx', st')
          else add_each_service alt g ys r' ctx' st')"
proof (induction xs arbitrary: r ctx st)
  case Nil
  then show ?case by (simp add: ports_set_def)
next
  case (Cons i xs)
  show ?case
  proof (cases "port (ctx ! i) = 0")
    case True
    then have "ports_set ctx (i # xs) = ports_set ctx xs"
      by (simp add: ports_set_def)
    with True Cons show ?thesis by (simp split: option.splits)
  next
    case False
    then have n: "ports_set ctx (i # xs) \<noteq> 0"
      by (simp add: ports_set_def)
    show ?thesis
    proof (cases "create_service alt g (ctx ! i) (i = 0) st")
      case None
      with False show ?thesis by simp
    next
      case (Some res)
      obtain r1 svc st1 where res: "res = (r1, svc, st1)" by (cases res)
      show ?thesis
      proof (cases "r1 = AVAHI_OK")
        case False
        with \<open>port (ctx ! i) \<noteq> 0\<close> Some res n show ?thesis by simp
      next
        case True
        let ?ctx = "ctx[i := svc]"
        have l: "add_each_service alt g ((i # xs) @ ys) r ctx st
            = add_each_service alt g (xs @ ys) AVAHI_OK ?ctx st1"
          using \<open>port (ctx ! i) \<noteq> 0\<close> Some res True by simp
        have m: "add_each_service alt g (i # xs) r ctx st
            = add_each_service alt g xs AVAHI_OK ?ctx st1"
          using \<open>port (ctx ! i) \<noteq> 0\<close> Some res True by simp
        show ?thesis
        proof (cases "ports_set ?ctx xs = 0")
          case True
          then have "add_each_service alt g xs AVAHI_OK ?ctx st1 = Some (AVAHI_OK, ?ctx, st1)"
            by (rule add_each_service_no_port)
          with l m Cons.IH [of AVAHI_OK ?ctx st1] show ?thesis by simp
        next
          case False
          with l m n Cons.IH [of AVAHI_OK ?ctx st1] show ?thesis
            by (simp split: option.splits)
        qed
      qed
    qed
  qed
qed

lemma default_batch_eq:
  "default_batch =
     [\<lparr>port = 8000, channel = - 1, name = Some ''Dire Wolf on host''\<rparr>,
      \<lparr>port = 8001, channel = - 1, name = Some ''Dire Wolf on host''\<rparr>,
      \<lparr>port = 0, channel = 0, name = None\<rparr>]"
  by code_simp

lemma two_channel_batch_eq:
  "two_channel_batch =
     [\<lparr>port = 8000, channel = - 1, name = Some ''TNC on host''\<rparr>,
      \<lparr>port = 8001, channel = 0, name = Some ''TNC channel 0 on host''\<rparr>,
      \<lparr>port = 8002, channel = 1, name = Some ''TNC channel 1 on host''\<rparr>]"
  by code_simp

lemma obtain_group_empty:
  "obtain_group c st = Inr (g, st1) \<Longrightarrow> avahi_entry_group_is_empty st1"
  by (auto simp: obtain_group_def avahi_entry_group_new_def avahi_entry_group_reset_def
      avahi_entry_group_is_empty_def split: option.splits)

lemma obtain_group_reset:
  "group st = Some g \<Longrightarrow> obtain_group c st = Inr (g, avahi_entry_group_reset g st)"
  by (simp add: obtain_group_def)

lemma create_services_failed:
  assumes "obtain_group c st = Inr (g, st1)"
    and "add_each_service alt g [0..<length ctx] (indeterminate_result st1) ctx st1 = Some (e, ctx', st2)"
    and "e \<noteq> AVAHI_OK"
  shows "create_services alt c ctx st = Some (ctx', dns_sd_term_avahi st2)"
  using assms obtain_group_empty [OF assms(1)] by (simp add: create_services_def)

lemma dns_sd_term_avahi_calls:
  "calls (dns_sd_term_avahi st) =
     calls st @ (case simple_poll st of Some p \<Rightarrow> [Simple_poll_quit p] | None \<Rightarrow> [])"
  by (simp add: dns_sd_term_avahi_def avahi_simple_poll_quit_def split: option.splits)

lemma dns_sd_term_avahi_quit:
  "simple_poll st \<noteq> None \<Longrightarrow> poll_quit (dns_sd_term_avahi st)"
  by (auto simp: dns_sd_term_avahi_def avahi_simple_poll_quit_def)

lemma add_each_service_accepted:
  assumes "\<forall>i \<in> set is. port (ctx ! i) \<noteq> 0 \<longrightarrow> name (ctx ! i) \<noteq> None"
    and "\<forall>j < ports_set ctx is. add_service_results st j = AVAHI_OK"
  shows "add_each_service alt g is r ctx st =
     Some (if ports_set ctx is = 0 then r else AVAHI_OK, ctx,
           st\<lparr>add_service_results := (\<lambda>n. add_service_results st (ports_set ctx is + n)),
              entries := entries st @ entries_of ctx is,
              calls := calls st @ adds_of g ctx is\<rparr>)"
  using assms
proof (induction "is" arbitrary: r st)
  case Nil
  then show ?case by (simp add: ports_set_def)
next
  case (Cons i "is")
  show ?case
  proof (cases "port (ctx ! i) = 0")
    case True
    with Cons.prems have "\<forall>j < ports_set ctx is. add_service_results st j = AVAHI_OK"
      by (simp add: ports_set_def)
    with Cons.prems have "add_each_service alt g is r ctx st =
       Some (if ports_set ctx is = 0 then r else AVAHI_OK, ctx,
           st\<lparr>add_service_results := (\<lambda>n. add_service_results st (ports_set ctx is + n)),
              entries := entries st @ entries_of ctx is,
              calls := calls st @ adds_of g ctx is\<rparr>)"
      by (intro Cons.IH) simp_all
    with True show ?thesis
      by (simp add: ports_set_def split: option.splits)
  next
    case False
    with Cons.prems obtain nm where nm: "name (ctx ! i) = Some nm" by auto
    have n: "ports_set ctx (i # is) = Suc (ports_set ctx is)"
      using False by (simp add: ports_set_def)
    have ok: "add_service_results st 0 = AVAHI_OK"
      using Cons.prems(2) n by simp
    let ?st = "st\<lparr>add_service_results := (\<lambda>n. add_service_results st (Suc 0 + n)),
                 entries := entries st @ [(nm, service_type (i = 0), uint16_t (port (ctx ! i)))],
                 calls := calls st @ [add_call g (ctx ! i) (i = 0) nm]\<rparr>"
    have "(ctx ! i)\<lparr>name := Some nm\<rparr> = ctx ! i"
      using nm by (cases "ctx ! i") auto
    then have same: "ctx[i := (ctx ! i)\<lparr>name := Some nm\<rparr>] = ctx"
      by simp
    have "add_each_service alt g (i # is) r ctx st = add_each_service alt g is AVAHI_OK ctx ?st"
      using add_each_service_step [OF False nm, of 0 st alt g "is" r] ok same
      by (simp add: Let_def AVAHI_codes)
    also have "\<dots> =
       Some (if ports_set ctx is = 0 then AVAHI_OK else AVAHI_OK, ctx,
           ?st\<lparr>add_service_results := (\<lambda>n. add_service_results ?st (ports_set ctx is + n)),
              entries := entries ?st @ entries_of ctx is,
              calls := calls ?st @ adds_of g ctx is\<rparr>)"
      using Cons.prems n by (intro Cons.IH) auto
    finally show ?thesis
      using False nm n by simp
  qed
qed

lemma ports_set_upt: "ports_set ctx [0..<length ctx] = length (filter (\<lambda>s. port s \<noteq> 0) ctx)"
proof -
  have "map (\<lambda>i. ctx ! i) [0..<length ctx] = ctx" by (rule map_nth)
  then have "length (filter (\<lambda>s. port s \<noteq> 0) ctx)
      = length (filter (\<lambda>s. port s \<noteq> 0) (map (\<lambda>i. ctx ! i) [0..<length ctx]))" by simp
  also have "\<dots> = ports_set ctx [0..<length ctx]"
    by (simp only: filter_map length_map ports_set_def comp_def)
  finally show ?thesis by simp
qed

lemma create_services_accepted:
  assumes g: "obtain_group c st = Inr (g, st1)"
    and named: "name_iff_port ctx"
    and some: "ports_set ctx [0..<length ctx] \<noteq> 0"
    and adds: "\<forall>j < ports_set ctx [0..<length ctx]. add_service_results st1 j = AVAHI_OK"
    and commit: "commit_results st1 0 = AVAHI_OK"
  shows "create_services alt c ctx st =
     Some (ctx,
           st1\<lparr>add_service_results :=
                  (\<lambda>n. add_service_results st1 (ports_set ctx [0..<length ctx] + n)),
               commit_results := (\<lambda>n. commit_results st1 (Suc n)),
               entries := entries_of ctx [0..<length ctx],
               calls := calls st1 @ adds_of g ctx [0..<length ctx] @ [Entry_group_commit g]\<rparr>)"
proof -
  have e: "entries st1 = []"
    using obtain_group_empty [OF g] by (simp add: avahi_entry_group_is_empty_def)
  have "\<forall>i \<in> set [0..<length ctx]. port (ctx ! i) \<noteq> 0 \<longrightarrow> name (ctx ! i) \<noteq> None"
    using named by (simp add: name_iff_port_def list_all_length)
  from add_each_service_accepted [OF this adds, of alt g "indeterminate_result st1"] some e
  show ?thesis
    using g commit obtain_group_empty [OF g]
    by (simp add: create_services_def avahi_entry_group_commit_def)
qed

lemma rename_all_ports_set:
  "ports_set (rename_all_services alt ctx) [0..<length (rename_all_services alt ctx)]
     = length (filter (\<lambda>s. port s \<noteq> 0) ctx)"
proof -
  have "ports_set (rename_all_services alt ctx) [0..<length (rename_all_services alt ctx)]
      = length (filter (\<lambda>s. port s \<noteq> 0) (rename_all_services alt ctx))"
    by (rule ports_set_upt)
  also have "\<dots> = length (filter (\<lambda>s. port s \<noteq> 0) ctx)"
    by (simp add: rename_all_services_eq filter_map comp_def renamed_fields)
  finally show ?thesis .
qed

lemma rename_all_length: "length (rename_all_services alt ctx) = length ctx"
  by (simp add: rename_all_services_eq)

lemma rename_all_ports_set_upt:
  "ports_set (rename_all_services alt ctx) [0..<length ctx]
     = length (filter (\<lambda>s. port s \<noteq> 0) ctx)"
  using rename_all_ports_set [of alt ctx] by (simp only: rename_all_length)

text \<open>The port as the library receives it.\<close>

lemma uint16_t_low_bits:
  "uint16_t 70000 = 4464" "uint16_t 8000 = 8000" "uint (uint16_t p) = p mod 65536"
  by (simp_all add: uint16_t_def uint_word_of_int)

text \<open>
  A whole round of the add loop: the daemon answers the adds of slot \<open>i\<close> with \<open>ks i\<close>
  collisions and then accepts.
\<close>

lemma round_answers_cong:
  "\<forall>j\<in>set is. port (ctx' ! j) = port (ctx ! j) \<Longrightarrow>
   round_answers ks ctx' is = round_answers ks ctx is"
  by (induction "is") simp_all

lemma round_calls_cong:
  "\<forall>j\<in>set is. ctx' ! j = ctx ! j \<Longrightarrow> round_calls alt g ks ctx' is = round_calls alt g ks ctx is"
  by (induction "is") (auto split: option.splits)

lemma round_entries_cong:
  "\<forall>j\<in>set is. ctx' ! j = ctx ! j \<Longrightarrow> round_entries alt ks ctx' is = round_entries alt ks ctx is"
  by (induction "is") (auto split: option.splits)

lemma ports_set_cong:
  "\<forall>j\<in>set is. port (ctx' ! j) = port (ctx ! j) \<Longrightarrow> ports_set ctx' is = ports_set ctx is"
  unfolding ports_set_def by (induction "is") simp_all

lemma round_batch_length: "length (round_batch alt ks ctx is) = length ctx"
  by (simp add: round_batch_def)

lemma round_batch_nth:
  "j < length ctx \<Longrightarrow>
   round_batch alt ks ctx is ! j =
     (if j \<in> set is \<and> port (ctx ! j) \<noteq> 0
      then (ctx ! j)\<lparr>name := map_option (alt ^^ ks j) (name (ctx ! j))\<rparr>
      else ctx ! j)"
  by (simp add: round_batch_def)

lemma round_batch_Nil: "round_batch alt ks ctx [] = ctx"
  by (simp add: list_eq_iff_nth_eq round_batch_length round_batch_nth)

lemma round_batch_skip:
  "port (ctx ! i) = 0 \<Longrightarrow> round_batch alt ks ctx (i # is) = round_batch alt ks ctx is"
  by (auto simp: list_eq_iff_nth_eq round_batch_length round_batch_nth)

lemma round_batch_step:
  assumes "i < length ctx" and "i \<notin> set is" and "port (ctx ! i) \<noteq> 0" and "name (ctx ! i) = Some nm"
  shows "round_batch alt ks (ctx[i := (ctx ! i)\<lparr>name := Some ((alt ^^ ks i) nm)\<rparr>]) is
       = round_batch alt ks ctx (i # is)"
  using assms
  by (auto simp: list_eq_iff_nth_eq round_batch_length round_batch_nth nth_list_update)

lemma answers_split:
  assumes "\<forall>n < length (as @ bs). f n = (as @ bs) ! n"
  shows "\<forall>n < length as. f n = as ! n" and "\<forall>n < length bs. f (length as + n) = bs ! n"
proof -
  show "\<forall>n < length as. f n = as ! n"
    using assms by (auto simp: nth_append)
  show "\<forall>n < length bs. f (length as + n) = bs ! n"
  proof (intro allI impI)
    fix n assume "n < length bs"
    then have "f (length as + n) = (as @ bs) ! (length as + n)"
      using assms by simp
    then show "f (length as + n) = bs ! n" by simp
  qed
qed

lemma add_each_service_round:
  assumes "distinct is"
    and "\<forall>i\<in>set is. i < length ctx \<and> (port (ctx ! i) \<noteq> 0 \<longrightarrow> name (ctx ! i) \<noteq> None)"
    and "\<forall>n < length (round_answers ks ctx is). add_service_results st n = round_answers ks ctx is ! n"
  shows "add_each_service alt g is r ctx st =
     Some (if ports_set ctx is = 0 then r else AVAHI_OK, round_batch alt ks ctx is,
           st\<lparr>add_service_results :=
                (\<lambda>n. add_service_results st (length (round_answers ks ctx is) + n)),
              entries := entries st @ round_entries alt ks ctx is,
              calls := calls st @ round_calls alt g ks ctx is\<rparr>)"
  using assms
proof (induction "is" arbitrary: r ctx st)
  case Nil
  then show ?case by (simp add: ports_set_def round_batch_Nil)
next
  case (Cons i "is")
  show ?case
  proof (cases "port (ctx ! i) = 0")
    case True
    have "add_each_service alt g is r ctx st =
       Some (if ports_set ctx is = 0 then r else AVAHI_OK, round_batch alt ks ctx is,
           st\<lparr>add_service_results :=
                (\<lambda>n. add_service_results st (length (round_answers ks ctx is) + n)),
              entries := entries st @ round_entries alt ks ctx is,
              calls := calls st @ round_calls alt g ks ctx is\<rparr>)"
      using Cons.prems True by (intro Cons.IH) simp_all
    with True show ?thesis
      by (simp add: ports_set_def round_batch_skip split: option.splits)
  next
    case False
    with Cons.prems obtain nm where nm: "name (ctx ! i) = Some nm" by auto
    have i: "i < length ctx" "i \<notin> set is" "distinct is"
      using Cons.prems by simp_all
    let ?k = "ks i"
    let ?A = "replicate ?k AVAHI_ERR_COLLISION @ [AVAHI_OK]"
    let ?B = "round_answers ks ctx is"
    have A: "round_answers ks ctx (i # is) = ?A @ ?B"
      using False by simp
    have lenA: "length ?A = Suc ?k" by simp
    note sp = answers_split [of ?A ?B "add_service_results st", OF Cons.prems(3) [unfolded A]]
    have coll: "\<forall>j<?k. add_service_results st j = AVAHI_ERR_COLLISION"
      using sp(1) by (auto simp: nth_append)
    have ok: "add_service_results st ?k = AVAHI_OK"
      using sp(1) [rule_format, of ?k] by (simp add: nth_append)
    then have notc: "add_service_results st ?k \<noteq> AVAHI_ERR_COLLISION"
      by (simp add: AVAHI_codes)
    let ?ctx = "ctx[i := (ctx ! i)\<lparr>name := Some ((alt ^^ ?k) nm)\<rparr>]"
    let ?st = "st\<lparr>add_service_results := (\<lambda>n. add_service_results st (Suc ?k + n)),
                 entries := entries st @ [((alt ^^ ?k) nm, service_type (i = 0), uint16_t (port (ctx ! i)))],
                 calls := calls st
                   @ map (\<lambda>j. add_call g (ctx ! i) (i = 0) ((alt ^^ j) nm)) [0..<Suc ?k]\<rparr>"
    have same: "\<forall>j\<in>set is. ?ctx ! j = ctx ! j"
      using i by (auto simp: nth_list_update)
    have step: "add_each_service alt g (i # is) r ctx st = add_each_service alt g is AVAHI_OK ?ctx ?st"
      using add_each_service_step [OF False nm coll notc, of alt g "is" r] ok
      by (simp add: Let_def)
    have p1: "\<forall>j\<in>set is. j < length ?ctx \<and> (port (?ctx ! j) \<noteq> 0 \<longrightarrow> name (?ctx ! j) \<noteq> None)"
      using Cons.prems(2) same by simp
    have B: "round_answers ks ?ctx is = ?B"
      using same by (intro round_answers_cong) simp
    have p2: "\<forall>n < length (round_answers ks ?ctx is).
        add_service_results ?st n = round_answers ks ?ctx is ! n"
      using sp(2) by (simp add: B)
    have "add_each_service alt g is AVAHI_OK ?ctx ?st =
       Some (if ports_set ?ctx is = 0 then AVAHI_OK else AVAHI_OK, round_batch alt ks ?ctx is,
           ?st\<lparr>add_service_results :=
                (\<lambda>n. add_service_results ?st (length (round_answers ks ?ctx is) + n)),
              entries := entries ?st @ round_entries alt ks ?ctx is,
              calls := calls ?st @ round_calls alt g ks ?ctx is\<rparr>)"
      using i(3) p1 p2 by (rule Cons.IH)
    also have "round_batch alt ks ?ctx is = round_batch alt ks ctx (i # is)"
      using i(1,2) False nm by (rule round_batch_step)
    also have "round_entries alt ks ?ctx is = round_entries alt ks ctx is"
      using same by (rule round_entries_cong)
    also have "round_calls alt g ks ?ctx is = round_calls alt g ks ctx is"
      using same by (rule round_calls_cong)
    finally show ?thesis
      using step False nm by (simp add: B ports_set_def add.assoc)
  qed
qed

lemma obtain_group_frame:
  assumes "obtain_group c st = Inr (g, st1)"
  shows "add_service_results st1 = add_service_results st"
    and "commit_results st1 = commit_results st"
    and "simple_poll st1 = simple_poll st"
    and "poll_quit st1 = poll_quit st"
    and "client st1 = client st"
    and "avahi_thread st1 = avahi_thread st"
    and "group st1 = Some g"
    and "entries st1 = []"
    and "calls st1 = calls st
           @ [case group st of Some g' \<Rightarrow> Entry_group_reset g' | None \<Rightarrow> Entry_group_new c]"
  using assms
  by (auto simp: obtain_group_def avahi_entry_group_new_def avahi_entry_group_reset_def
      split: option.splits)

lemma obtain_group_new:
  assumes "group st = None" and "entry_group_new_results st 0 = Some n"
  shows "obtain_group c st =
     Inr (AvahiEntryGroup n c,
          st\<lparr>group := Some (AvahiEntryGroup n c),
             entry_group_new_results := (\<lambda>n. entry_group_new_results st (Suc n)),
             entries := [],
             calls := calls st @ [Entry_group_new c]\<rparr>)"
  using assms by (simp add: obtain_group_def avahi_entry_group_new_def)

lemma name_iff_port_named:
  "name_iff_port ctx \<Longrightarrow>
   \<forall>i\<in>set [0..<n]. i < length ctx \<longrightarrow> port (ctx ! i) \<noteq> 0 \<longrightarrow> name (ctx ! i) \<noteq> None"
  by (simp add: name_iff_port_def list_all_length)

lemma create_services_round:
  assumes g: "obtain_group c st = Inr (g, st1)"
    and named: "name_iff_port ctx"
    and some: "ports_set ctx [0..<length ctx] \<noteq> 0"
    and adds: "\<forall>n < length (round_answers ks ctx [0..<length ctx]).
                 add_service_results st n = round_answers ks ctx [0..<length ctx] ! n"
    and commit: "commit_results st 0 = AVAHI_OK"
  shows "create_services alt c ctx st =
     Some (round_batch alt ks ctx [0..<length ctx],
           st1\<lparr>add_service_results :=
                  (\<lambda>n. add_service_results st (length (round_answers ks ctx [0..<length ctx]) + n)),
               commit_results := (\<lambda>n. commit_results st (Suc n)),
               entries := round_entries alt ks ctx [0..<length ctx],
               calls := calls st1 @ round_calls alt g ks ctx [0..<length ctx]
                 @ [Entry_group_commit g]\<rparr>)"
proof -
  note f = obtain_group_frame [OF g]
  have d: "distinct [0..<length ctx]" by simp
  have n: "\<forall>i\<in>set [0..<length ctx].
      i < length ctx \<and> (port (ctx ! i) \<noteq> 0 \<longrightarrow> name (ctx ! i) \<noteq> None)"
    using named by (simp add: name_iff_port_def list_all_length)
  have a: "\<forall>n < length (round_answers ks ctx [0..<length ctx]).
      add_service_results st1 n = round_answers ks ctx [0..<length ctx] ! n"
    using adds by (simp add: f(1))
  from add_each_service_round [OF d n a, of alt g "indeterminate_result st1"] some
  show ?thesis
    using g commit obtain_group_empty [OF g]
    by (simp add: create_services_def avahi_entry_group_commit_def f)
qed

lemma round_batch_other:
  "i < length ctx \<Longrightarrow> i \<notin> set is \<Longrightarrow> round_batch alt ks ctx is ! i = ctx ! i"
  by (simp add: round_batch_nth)

lemma add_each_service_fatal:
  assumes i: "i < length ctx" and p: "port (ctx ! i) \<noteq> 0" and nm: "name (ctx ! i) = Some nm"
    and named: "name_iff_port ctx"
    and good: "\<forall>n < length (round_answers ks ctx [0..<i]).
                 add_service_results st n = round_answers ks ctx [0..<i] ! n"
    and coll: "\<forall>j<k. add_service_results st (length (round_answers ks ctx [0..<i]) + j)
                 = AVAHI_ERR_COLLISION"
    and e: "add_service_results st (length (round_answers ks ctx [0..<i]) + k) = e"
    and ne: "e \<noteq> AVAHI_ERR_COLLISION" "e \<noteq> AVAHI_OK"
  shows "add_each_service alt g ([0..<i] @ i # is) r ctx st =
     Some (e,
           (round_batch alt ks ctx [0..<i])[i := (ctx ! i)\<lparr>name := Some ((alt ^^ k) nm)\<rparr>],
           st\<lparr>add_service_results :=
                (\<lambda>n. add_service_results st (length (round_answers ks ctx [0..<i]) + Suc k + n)),
              entries := entries st @ round_entries alt ks ctx [0..<i],
              calls := calls st @ round_calls alt g ks ctx [0..<i]
                @ map (\<lambda>j. add_call g (ctx ! i) (i = 0) ((alt ^^ j) nm)) [0..<Suc k]\<rparr>)"
proof -
  let ?L = "length (round_answers ks ctx [0..<i])"
  let ?ctx = "round_batch alt ks ctx [0..<i]"
  let ?st = "st\<lparr>add_service_results := (\<lambda>n. add_service_results st (?L + n)),
               entries := entries st @ round_entries alt ks ctx [0..<i],
               calls := calls st @ round_calls alt g ks ctx [0..<i]\<rparr>"
  let ?r = "if ports_set ctx [0..<i] = 0 then r else AVAHI_OK"
  have d: "distinct [0..<i]" by simp
  have n: "\<forall>j\<in>set [0..<i]. j < length ctx \<and> (port (ctx ! j) \<noteq> 0 \<longrightarrow> name (ctx ! j) \<noteq> None)"
    using named i by (simp add: name_iff_port_def list_all_length)
  have pre: "add_each_service alt g [0..<i] r ctx st = Some (?r, ?ctx, ?st)"
    by (rule add_each_service_round [OF d n good])
  have same: "?ctx ! i = ctx ! i"
    using i by (simp add: round_batch_other)
  have p': "port (?ctx ! i) \<noteq> 0" and nm': "name (?ctx ! i) = Some nm"
    using p nm by (simp_all add: same)
  have coll': "\<forall>j<k. add_service_results ?st j = AVAHI_ERR_COLLISION"
    using coll by simp
  have e': "add_service_results ?st k = e"
    using e by simp
  then have ne': "add_service_results ?st k \<noteq> AVAHI_ERR_COLLISION"
    using ne by simp
  have step: "add_each_service alt g (i # is) ?r ?ctx ?st =
     Some (e, ?ctx[i := (ctx ! i)\<lparr>name := Some ((alt ^^ k) nm)\<rparr>],
           ?st\<lparr>add_service_results := (\<lambda>n. add_service_results ?st (Suc k + n)),
               entries := entries ?st,
               calls := calls ?st
                 @ map (\<lambda>j. add_call g (ctx ! i) (i = 0) ((alt ^^ j) nm)) [0..<Suc k]\<rparr>)"
    using add_each_service_step [OF p' nm' coll' ne', of alt g "is" ?r] e' ne(2)
    by (simp add: Let_def same)
  have "add_each_service alt g ([0..<i] @ i # is) r ctx st
      = add_each_service alt g (i # is) ?r ?ctx ?st"
    by (simp only: add_each_service_append [of alt g "[0..<i]"] pre) simp
  with step show ?thesis
    by (simp add: add.assoc)
qed

lemma create_services_fatal:
  assumes g: "obtain_group c st = Inr (g, st1)"
    and i: "i < length ctx" and p: "port (ctx ! i) \<noteq> 0" and nm: "name (ctx ! i) = Some nm"
    and named: "name_iff_port ctx"
    and good: "\<forall>n < length (round_answers ks ctx [0..<i]).
                 add_service_results st n = round_answers ks ctx [0..<i] ! n"
    and coll: "\<forall>j<k. add_service_results st (length (round_answers ks ctx [0..<i]) + j)
                 = AVAHI_ERR_COLLISION"
    and e: "add_service_results st (length (round_answers ks ctx [0..<i]) + k) = e"
    and ne: "e \<noteq> AVAHI_ERR_COLLISION" "e \<noteq> AVAHI_OK"
    and poll: "simple_poll st = Some q"
  shows "create_services alt c ctx st =
     Some ((round_batch alt ks ctx [0..<i])[i := (ctx ! i)\<lparr>name := Some ((alt ^^ k) nm)\<rparr>],
           st1\<lparr>poll_quit := True,
               add_service_results :=
                 (\<lambda>n. add_service_results st (length (round_answers ks ctx [0..<i]) + Suc k + n)),
               entries := round_entries alt ks ctx [0..<i],
               calls := calls st1 @ round_calls alt g ks ctx [0..<i]
                 @ map (\<lambda>j. add_call g (ctx ! i) (i = 0) ((alt ^^ j) nm)) [0..<Suc k]
                 @ [Simple_poll_quit q]\<rparr>)"
proof -
  note f = obtain_group_frame [OF g]
  have u: "[0..<length ctx] = [0..<i] @ i # [Suc i..<length ctx]"
    using i by (metis le_add2 le_add_same_cancel2 less_imp_add_positive upt_add_eq_append upt_conv_Cons)
  have good1: "\<forall>n < length (round_answers ks ctx [0..<i]).
                 add_service_results st1 n = round_answers ks ctx [0..<i] ! n"
    using good by (simp add: f(1))
  have coll1: "\<forall>j<k. add_service_results st1 (length (round_answers ks ctx [0..<i]) + j)
                 = AVAHI_ERR_COLLISION"
    using coll by (simp add: f(1))
  have e1: "add_service_results st1 (length (round_answers ks ctx [0..<i]) + k) = e"
    using e by (simp add: f(1))
  note loop = add_each_service_fatal [OF i p nm named good1 coll1 e1 ne,
      of alt g "[Suc i..<length ctx]" "indeterminate_result st1"]
  show ?thesis
    unfolding create_services_failed [OF g loop [folded u] ne(2)]
    by (simp add: dns_sd_term_avahi_def avahi_simple_poll_quit_def f poll)
qed

lemma add_each_service_never:
  "ports_set ctx is \<noteq> 0 \<Longrightarrow> \<forall>j. add_service_results st j = AVAHI_ERR_COLLISION \<Longrightarrow>
   add_each_service alt g is r ctx st = None"
proof (induction "is")
  case Nil
  then show ?case by (simp add: ports_set_def)
next
  case (Cons i "is")
  show ?case
  proof (cases "port (ctx ! i) = 0")
    case True
    with Cons show ?thesis by (simp add: ports_set_def)
  next
    case False
    then show ?thesis using Cons.prems(2) by (rule add_each_service_no_answer)
  qed
qed

lemma create_services_eq:
  "obtain_group c st = Inr (g, st1) \<Longrightarrow>
   create_services alt c ctx st =
     (case add_each_service alt g [0..<length ctx] (indeterminate_result st1) ctx st1 of
        None \<Rightarrow> None
      | Some (result, ctx', st2) \<Rightarrow>
          if result \<noteq> AVAHI_OK then Some (ctx', dns_sd_term_avahi st2)
          else (case avahi_entry_group_commit g st2 of
                  (result', st3) \<Rightarrow>
                    if result' \<noteq> AVAHI_OK then Some (ctx', dns_sd_term_avahi st3)
                    else Some (ctx', st3)))"
  using obtain_group_empty [of c st g st1] by (simp add: create_services_def)

lemma create_services_never:
  assumes "obtain_group c st = Inr (g, st1)" and "ports_set ctx [0..<length ctx] \<noteq> 0"
    and "\<forall>j. add_service_results st j = AVAHI_ERR_COLLISION"
  shows "create_services alt c ctx st = None"
proof -
  have "\<forall>j. add_service_results st1 j = AVAHI_ERR_COLLISION"
    using assms(3) by (simp add: obtain_group_frame [OF assms(1)])
  from add_each_service_never [OF assms(2) this] show ?thesis
    by (simp add: create_services_eq [OF assms(1)])
qed

lemma round_calls_no_commit: "filter is_commit (round_calls alt g ks ctx is) = []"
  by (induction "is") (auto simp: add_call_def split: option.splits)

subsection \<open>The per-service backend\<close>

lemma with_port_Suc:
  "with_port c (Suc n) = with_port c n @ (if port (c ! n) \<noteq> 0 then [n] else [])"
  by (simp add: with_port_def)

lemma register_loop:
  assumes "n \<le> N"
  shows "fold register_step [0..<n]
           (\<lparr>svcs_ctx = c, sd_ref = replicate N None, sd_fd = fds\<rparr>, st) =
     (\<lparr>svcs_ctx = c,
       sd_ref = map (kept_ref c (register_results st)) [0..<n] @ replicate (N - n) None,
       sd_fd = fds\<rparr>,
      st\<lparr>register_results := (\<lambda>k. register_results st (length (with_port c n) + k)),
         sys_calls := sys_calls st @ map (register_call c) (with_port c n),
         printed := printed st @ map (announce_message c (register_results st)) (with_port c n)\<rparr>)"
  using assms
proof (induction n)
  case 0
  then show ?case by (simp add: with_port_def)
next
  case (Suc n)
  let ?refs = "map (kept_ref c (register_results st)) [0..<n]"
  let ?svcs = "\<lparr>svcs_ctx = c, sd_ref = ?refs @ replicate (N - n) None, sd_fd = fds\<rparr>"
  let ?st = "st\<lparr>register_results := (\<lambda>k. register_results st (length (with_port c n) + k)),
         sys_calls := sys_calls st @ map (register_call c) (with_port c n),
         printed := printed st @ map (announce_message c (register_results st)) (with_port c n)\<rparr>"
  from Suc.prems obtain r where r: "N - n = Suc r" "N - Suc n = r"
    by (metis Suc_diff_Suc Suc_le_lessD diff_Suc_Suc)
  have "fold register_step [0..<Suc n]
           (\<lparr>svcs_ctx = c, sd_ref = replicate N None, sd_fd = fds\<rparr>, st)
      = register_step n (?svcs, ?st)"
    using Suc by simp
  also have "\<dots> =
     (\<lparr>svcs_ctx = c,
       sd_ref = map (kept_ref c (register_results st)) [0..<Suc n] @ replicate (N - Suc n) None,
       sd_fd = fds\<rparr>,
      st\<lparr>register_results := (\<lambda>k. register_results st (length (with_port c (Suc n)) + k)),
         sys_calls := sys_calls st @ map (register_call c) (with_port c (Suc n)),
         printed := printed st
           @ map (announce_message c (register_results st)) (with_port c (Suc n))\<rparr>)"
  proof (cases "port (c ! n) = 0")
    case True
    then show ?thesis
      by (simp add: register_step_def with_port_Suc kept_ref_def r)
  next
    case False
    have upd: "(?refs @ None # replicate r None)[n := v] = ?refs @ v # replicate r None" for v
      by (simp add: list_update_append)
    have rep: "replicate (Suc r) (None :: DNSServiceRef option) = None # replicate r None"
      by simp
    from False show ?thesis
      by (cases "register_results st (length (with_port c n))")
        (simp add: register_step_def dns_service_register_def dw_printf_def with_port_Suc
          kept_ref_def answer_for_def announce_message_def register_call_def r upd rep Let_def
          del: replicate_Suc)
  qed
  finally show ?case .
qed

lemma dns_sd_announce_macos_eq:
  assumes "dns_sd_service_count K mc \<noteq> 0"
  shows "dns_sd_announce_macos K mc gh st =
     st\<lparr>register_results :=
          (\<lambda>k. register_results st
                 (length (with_port (dns_sd_create_context K mc gh) (MAX_DNS_SD_SERVICES K)) + k)),
        printed := printed st
          @ map (announce_message (dns_sd_create_context K mc gh) (register_results st))
              (with_port (dns_sd_create_context K mc gh) (MAX_DNS_SD_SERVICES K)),
        event_thread :=
          Some \<lparr>svcs_ctx = dns_sd_create_context K mc gh,
                sd_ref = map (kept_ref (dns_sd_create_context K mc gh) (register_results st))
                           [0..<MAX_DNS_SD_SERVICES K],
                sd_fd = replicate (MAX_DNS_SD_SERVICES K) 0\<rparr>,
        sys_calls := sys_calls st
          @ map (register_call (dns_sd_create_context K mc gh))
              (with_port (dns_sd_create_context K mc gh) (MAX_DNS_SD_SERVICES K))
          @ [Sys_pthread_create]\<rparr>"
  using assms
  by (simp add: dns_sd_announce_macos_def Let_def register_loop [of "MAX_DNS_SD_SERVICES K"])

lemma register_calls_append [simp]:
  "register_calls (st\<lparr>sys_calls := sys_calls st @ xs\<rparr>) = register_calls st @ filter is_register xs"
  by (simp add: register_calls_def)

lemma register_calls_event_thread [simp]:
  "register_calls (st\<lparr>event_thread := t\<rparr>) = register_calls st"
  by (simp add: register_calls_def)

lemma register_calls_dw_printf [simp]:
  "register_calls (dw_printf col msg st) = register_calls st"
  by (simp add: register_calls_def dw_printf_def)

lemma populate_fds_register_calls:
  "register_calls (snd (populate_fds svcs st)) = register_calls st"
  unfolding populate_fds_def
  by (rule fold_invariant [where Q = "\<lambda>_. True"]) (auto split: option.splits)

lemma create_pipe_register_calls: "register_calls (create_pipe st) = register_calls st"
  by (simp add: create_pipe_def Let_def register_calls_def dw_printf_def split: option.splits)

lemma registration_callback_register_calls:
  "register_calls (registration_callback e nm ty st) = register_calls st"
  by (simp add: registration_callback_def Let_def)

lemma process_result_register_calls:
  assumes "dns_service_process_result r st = (err, st')"
  shows "register_calls st' = register_calls st"
proof -
  have "register_calls (fold (\<lambda>(errorCode, nm, regType). registration_callback errorCode nm regType) cbs s)
      = register_calls s" for cbs s
    by (induction cbs arbitrary: s) (auto simp: registration_callback_register_calls)
  with assms show ?thesis
    by (auto simp: dns_service_process_result_def register_calls_def split: prod.splits)
qed

lemma check_services_register_calls:
  "register_calls (snd (check_services svcs readfds st)) = register_calls st"
  unfolding check_services_def
proof (rule fold_invariant [where Q = "\<lambda>_. True"])
  fix i and p :: "bool \<times> macos_state"
  assume p: "register_calls (snd p) = register_calls st"
  obtain stop_now s where [simp]: "p = (stop_now, s)" by (cases p)
  show "register_calls (snd ((case p of (stop_now, st) \<Rightarrow>
             if sd_fd svcs ! i > 0 \<and> sd_fd svcs ! i \<in> set readfds
             then (case sd_ref svcs ! i of
                     None \<Rightarrow> (stop_now, st)
                   | Some r \<Rightarrow>
                       (case dns_service_process_result r st of
                          (err, st') \<Rightarrow>
                            if err \<noteq> kDNSServiceErr_NoError
                            then (True, dw_printf DW_COLOR_ERROR (Error_from_the_API err i) st')
                            else (stop_now, st')))
             else (stop_now, st)))) = register_calls st"
    using p
    by (auto split: option.splits prod.splits dest: process_result_register_calls)
qed simp_all

lemma select_loop_register_calls:
  "register_calls (snd (select_loop svcs outs st)) = register_calls st"
proof (induction outs arbitrary: st)
  case Nil
  then show ?case by simp
next
  case (Cons out outs)
  show ?case
  proof (cases out)
    case (Ready readfds)
    with Cons check_services_register_calls
      [of svcs readfds "st\<lparr>sys_calls := sys_calls st @ [Sys_select]\<rparr>"]
    show ?thesis
      by (auto simp: Let_def split: prod.splits)
  next
    case (Not_ready eintr)
    with Cons show ?thesis
      by (auto simp: Let_def)
  qed
qed

lemma clean_up_register_calls: "register_calls (clean_up svcs st) = register_calls st"
  by (simp add: clean_up_def Let_def sys_close_def register_calls_def filter_map comp_def)

lemma process_events_register_calls:
  "register_calls (process_events svcs outs st) = register_calls st"
proof -
  obtain svcs' st1 where p: "populate_fds svcs st = (svcs', st1)" by (cases "populate_fds svcs st")
  obtain b st2 where s: "select_loop svcs' outs (create_pipe st1) = (b, st2)"
    by (cases "select_loop svcs' outs (create_pipe st1)")
  have "register_calls st1 = register_calls st"
    using populate_fds_register_calls [of svcs st] p by simp
  moreover have "register_calls st2 = register_calls st1"
    using select_loop_register_calls [of svcs' outs "create_pipe st1"] s
    by (simp add: create_pipe_register_calls)
  ultimately show ?thesis
    using p s by (cases b) (simp_all add: process_events_def clean_up_register_calls)
qed

lemma with_port_count:
  "int (length (with_port (dns_sd_create_context K mc gh) (MAX_DNS_SD_SERVICES K)))
     = dns_sd_service_count K mc"
proof -
  let ?c = "dns_sd_create_context K mc gh"
  have "with_port ?c (MAX_DNS_SD_SERVICES K) = filter (\<lambda>i. port (?c ! i) \<noteq> 0) [0..<length ?c]"
    by (simp add: with_port_def create_context_length)
  then have "length (with_port ?c (MAX_DNS_SD_SERVICES K)) = ports_set ?c [0..<length ?c]"
    by (simp add: ports_set_def)
  also have "\<dots> = length (filter (\<lambda>s. port s \<noteq> 0) ?c)"
    by (rule ports_set_upt)
  also have "filter (\<lambda>s. port s \<noteq> 0) ?c = filter active ?c"
    using create_context_name_iff_port [of K mc gh]
    by (intro filter_cong) (auto simp: name_iff_port_def list_all_iff active_def)
  finally show ?thesis
    by (simp add: active_count)
qed


subsection \<open>Requests to terminate\<close>

text \<open>
  In the Avahi backend \<^verbatim>\<open>dns_sd_term\<close> does nothing when there is no poll object, which is
  the case before any announcement and again after \<^verbatim>\<open>cleanup\<close>; when there is one it only
  sets the quit flag, and leaves the release of everything to the worker thread.
\<close>

lemma dns_sd_term_avahi_no_poll: "simple_poll st = None \<Longrightarrow> dns_sd_term_avahi st = st"
  by (simp add: dns_sd_term_avahi_def)

lemma cleanup_clears:
  "group (cleanup ctx st) = None" "client (cleanup ctx st) = None"
  "simple_poll (cleanup ctx st) = None"
  by (simp_all add: cleanup_def Let_def split: option.splits)

lemma dns_sd_term_avahi_after_cleanup:
  "dns_sd_term_avahi (cleanup ctx st) = cleanup ctx st"
  by (simp add: dns_sd_term_avahi_no_poll cleanup_clears)

lemma dns_sd_term_avahi_releases_nothing:
  "group (dns_sd_term_avahi st) = group st" "client (dns_sd_term_avahi st) = client st"
  "simple_poll (dns_sd_term_avahi st) = simple_poll st"
  "avahi_thread (dns_sd_term_avahi st) = avahi_thread st"
  "entries (dns_sd_term_avahi st) = entries st"
  by (simp_all add: dns_sd_term_avahi_def avahi_simple_poll_quit_def split: option.splits)

text \<open>
  In the per-service backend \<^verbatim>\<open>dns_sd_term\<close> does nothing as long as \<^verbatim>\<open>stop_fd[1]\<close> is
  \<open>- 1\<close>, which is the case before any announcement.
\<close>

lemma dns_sd_term_macos_no_pipe: "snd (stop_fd st) = - 1 \<Longrightarrow> dns_sd_term_macos st = st"
  by (simp add: dns_sd_term_macos_def)


subsection \<open>The poll object and the worker thread\<close>

lemma create_service_keeps:
  assumes "create_service alt g svc is_agwpe st = Some y"
  shows "simple_poll (snd (snd y)) = simple_poll st \<and> poll_quit (snd (snd y)) = poll_quit st
       \<and> group (snd (snd y)) = group st \<and> client (snd (snd y)) = client st"
  using assms
proof (induction rule: create_service.raw_induct [rotated 1, consumes 1])
  case (1 create_service alt g svc is_agwpe st y)
  show ?case
  proof (cases "name svc")
    case None
    with 1(2) show ?thesis by simp
  next
    case (Some nm)
    let ?st = "snd (avahi_entry_group_add_service g nm
                  (if is_agwpe then DNS_SD_TYPE_AGWPE else DNS_SD_TYPE_KISS)
                  (uint16_t (port svc)) st)"
    have k: "simple_poll ?st = simple_poll st \<and> poll_quit ?st = poll_quit st
        \<and> group ?st = group st \<and> client ?st = client st"
      by (simp add: avahi_entry_group_add_service_def Let_def)
    show ?thesis
    proof (cases "add_service_results st 0 = AVAHI_ERR_COLLISION")
      case True
      with 1(2) Some have "create_service alt g (svc\<lparr>name := Some (alt nm)\<rparr>) is_agwpe ?st = Some y"
        by (auto simp: avahi_entry_group_add_service_def Let_def)
      from 1(1) [OF this] k show ?thesis by simp
    next
      case False
      with 1(2) Some have "y = (add_service_results st 0, svc, ?st)"
        by (auto simp: avahi_entry_group_add_service_def Let_def)
      with k show ?thesis by simp
    qed
  qed
qed

lemma add_each_service_keeps:
  "add_each_service alt g is r ctx st = Some (r', ctx', st') \<Longrightarrow>
   simple_poll st' = simple_poll st \<and> poll_quit st' = poll_quit st
     \<and> group st' = group st \<and> client st' = client st"
proof (induction "is" arbitrary: r ctx st)
  case Nil
  then show ?case by simp
next
  case (Cons i "is")
  show ?case
  proof (cases "port (ctx ! i) = 0")
    case True
    with Cons show ?thesis by simp
  next
    case False
    with Cons.prems obtain e svc st1 where
      cs: "create_service alt g (ctx ! i) (i = 0) st = Some (e, svc, st1)"
      by (auto split: option.splits)
    from create_service_keeps [OF cs] have
      k: "simple_poll st1 = simple_poll st \<and> poll_quit st1 = poll_quit st
        \<and> group st1 = group st \<and> client st1 = client st"
      by simp
    show ?thesis
    proof (cases "e = AVAHI_OK")
      case True
      with Cons.prems False cs
      have "add_each_service alt g is e (ctx[i := svc]) st1 = Some (r', ctx', st')" by simp
      from Cons.IH [OF this] k show ?thesis by simp
    next
      case False
      with Cons.prems \<open>port (ctx ! i) \<noteq> 0\<close> cs have "st' = st1" by simp
      with k show ?thesis by simp
    qed
  qed
qed

text \<open>
  No callback releases or replaces the poll object: \<^verbatim>\<open>simple_poll\<close> is assigned in
  \<^verbatim>\<open>dns_sd_announce\<close> and in \<^verbatim>\<open>cleanup\<close> only.
\<close>

lemma create_services_keeps_poll:
  assumes "create_services alt c ctx st = Some (ctx', st')"
  shows "simple_poll st' = simple_poll st"
proof (cases "obtain_group c st")
  case (Inl s)
  then have "s = dns_sd_term_avahi ((snd (avahi_entry_group_new c st))\<lparr>group := None\<rparr>)"
    by (auto simp: obtain_group_def split: option.splits prod.splits)
  moreover from assms Inl have "st' = s"
    by (simp add: create_services_def)
  ultimately show ?thesis
    by (simp add: dns_sd_term_avahi_releases_nothing avahi_entry_group_new_def)
next
  case (Inr x)
  obtain g st1 where x: "x = (g, st1)" by (cases x)
  note og = Inr [unfolded x]
  note f = obtain_group_frame [OF og]
  from assms og obtain_group_empty [OF og] obtain r st2 where
    loop: "add_each_service alt g [0..<length ctx] (indeterminate_result st1) ctx st1
        = Some (r, ctx', st2)"
    and st': "st' = (if r \<noteq> AVAHI_OK then dns_sd_term_avahi st2
                     else if commit_results st2 0 \<noteq> AVAHI_OK
                          then dns_sd_term_avahi (snd (avahi_entry_group_commit g st2))
                          else snd (avahi_entry_group_commit g st2))"
    by (auto simp: create_services_def avahi_entry_group_commit_def
        split: option.splits if_splits)
  from add_each_service_keeps [OF loop] have "simple_poll st2 = simple_poll st"
    by (simp add: f)
  with st' show ?thesis
    by (simp add: dns_sd_term_avahi_releases_nothing avahi_entry_group_commit_def)
qed

lemma client_callback_keeps_poll:
  "client_callback alt c state ctx st = Some (ctx', st') \<Longrightarrow> simple_poll st' = simple_poll st"
  by (cases state)
    (auto simp: client_callback_def create_services_keeps_poll
      dns_sd_term_avahi_releases_nothing avahi_entry_group_reset_def split: option.splits)

lemma entry_group_callback_keeps_poll:
  assumes "entry_group_callback alt g state ctx st = Some (ctx', st')"
  shows "simple_poll st' = simple_poll st"
proof (cases state)
  case AVAHI_ENTRY_GROUP_COLLISION
  with assms have
    "create_services alt (avahi_entry_group_get_client g) (rename_all_services alt ctx)
       (st\<lparr>group := Some g\<rparr>) = Some (ctx', st')"
    by (auto simp: entry_group_callback_def Let_def split: if_splits)
  from create_services_keeps_poll [OF this] show ?thesis by simp
qed (use assms in \<open>auto simp: entry_group_callback_def Let_def
      dns_sd_term_avahi_releases_nothing split: if_splits\<close>)

lemma dispatch_keeps_poll:
  "dispatch alt ev ctx st = Some (ctx', st') \<Longrightarrow> simple_poll st' = simple_poll st"
  by (cases ev)
    (auto simp: dispatch_def client_callback_keeps_poll entry_group_callback_keeps_poll)

lemma client_new_callbacks_keeps_poll:
  "client_new_callbacks alt c states ctx st = Some (ctx', st') \<Longrightarrow>
   simple_poll st' = simple_poll st"
proof (induction states arbitrary: ctx st)
  case Nil
  then show ?case by simp
next
  case (Cons s states)
  then obtain ctx1 st1 where a: "client_callback alt c s ctx st = Some (ctx1, st1)"
    and b: "client_new_callbacks alt c states ctx1 st1 = Some (ctx', st')"
    by (auto split: option.splits)
  from Cons.IH [OF b] client_callback_keeps_poll [OF a] show ?case by simp
qed

text \<open>What \<^verbatim>\<open>cleanup\<close> does, field by field.\<close>

lemma cleanup_eq:
  "cleanup ctx st =
     st\<lparr>group := None, client := None, simple_poll := None,
        entries := (case group st of Some g \<Rightarrow> [] | None \<Rightarrow> entries st),
        calls := calls st @ releases st\<rparr>"
  by (simp add: cleanup_def releases_def Let_def split: option.splits)

text \<open>
  While the worker thread has not left its loop, the poll object is the one it started
  with: after any events, either the thread has ended and everything is released, or it
  waits for the next event with \<^verbatim>\<open>simple_poll\<close> unchanged.
\<close>

lemma avahi_mainloop_keeps_poll:
  "avahi_mainloop alt evs ctx st = Some st' \<Longrightarrow>
   (case avahi_thread st' of
      None \<Rightarrow> poll_quit st' \<and> simple_poll st' = None \<and> group st' = None \<and> client st' = None
    | Some ctx' \<Rightarrow> \<not> poll_quit st' \<and> simple_poll st' = simple_poll st)"
proof (induction evs arbitrary: ctx st)
  case Nil
  then show ?case by (auto simp: cleanup_eq split: if_splits)
next
  case (Cons ev evs)
  show ?case
  proof (cases "poll_quit st")
    case True
    with Cons.prems show ?thesis by (auto simp: cleanup_eq)
  next
    case False
    with Cons.prems obtain ctx1 st1 where a: "dispatch alt ev ctx st = Some (ctx1, st1)"
      and b: "avahi_mainloop alt evs ctx1 st1 = Some st'"
      by (auto split: option.splits)
    from Cons.IH [OF b] dispatch_keeps_poll [OF a] show ?thesis
      by (simp split: option.splits)
  qed
qed

lemma avahi_mainloop_quit:
  "poll_quit st \<Longrightarrow>
   avahi_mainloop alt evs ctx st =
     Some (st\<lparr>group := None, client := None, simple_poll := None, avahi_thread := None,
             entries := (case group st of Some g \<Rightarrow> [] | None \<Rightarrow> entries st),
             calls := calls st @ releases st\<rparr>)"
  by (simp add: cleanup_eq)

lemma dns_sd_announce_avahi_eq:
  assumes "dns_sd_service_count K mc \<noteq> 0" and "simple_poll_new_result st = Some q"
  shows "dns_sd_announce_avahi alt K mc gh st =
     (case client_new_callbacks alt (cn_client (client_new_result st))
             (cn_events (client_new_result st)) (dns_sd_create_context K mc gh)
             (st\<lparr>simple_poll := Some q, calls := calls st @ [Simple_poll_new, Client_new q]\<rparr>) of
        None \<Rightarrow> None
      | Some (ctx, st') \<Rightarrow>
          (case cn_error (client_new_result st) of
             None \<Rightarrow> Some (st'\<lparr>client := Some (cn_client (client_new_result st)),
                               avahi_thread := Some ctx,
                               calls := calls st' @ [Pthread_create]\<rparr>)
           | Some e \<Rightarrow>
               if e = 0
               then Some (st'\<lparr>client := None, avahi_thread := Some ctx,
                              calls := calls st' @ [Pthread_create]\<rparr>)
               else Some (cleanup ctx (st'\<lparr>client := None\<rparr>))))"
  using assms
  by (simp add: dns_sd_announce_avahi_def Let_def split: option.splits prod.splits)

text \<open>When \<^verbatim>\<open>avahi_client_new\<close> succeeds, the thread is started with the poll object.\<close>

lemma dns_sd_announce_avahi_starts_thread:
  assumes "dns_sd_service_count K mc \<noteq> 0" and "simple_poll_new_result s = Some q"
    and "cn_error (client_new_result s) = None"
    and "dns_sd_announce_avahi alt K mc gh s = Some s'"
  shows "simple_poll s' = Some q \<and> avahi_thread s' \<noteq> None
       \<and> client s' = Some (cn_client (client_new_result s))"
proof -
  from assms(4) obtain ctx' s'' where
    cb: "client_new_callbacks alt (cn_client (client_new_result s))
           (cn_events (client_new_result s)) (dns_sd_create_context K mc gh)
           (s\<lparr>simple_poll := Some q, calls := calls s @ [Simple_poll_new, Client_new q]\<rparr>)
         = Some (ctx', s'')"
    and s': "s' = s''\<lparr>client := Some (cn_client (client_new_result s)),
                      avahi_thread := Some ctx', calls := calls s'' @ [Pthread_create]\<rparr>"
    unfolding dns_sd_announce_avahi_eq [OF assms(1,2)]
    by (auto simp: assms(3) split: option.splits)
  from client_new_callbacks_keeps_poll [OF cb] s' show ?thesis by simp
qed

subsection \<open>Claims about the Avahi backend\<close>

text \<open>
  C1.  On \<^verbatim>\<open>AVAHI_ENTRY_GROUP_COLLISION\<close> the entry-group callback renames the whole batch
  (every slot with a name gets the alternative of its name) and calls
  \<^verbatim>\<open>create_services\<close> on the renamed batch; the group is set by then, so the first thing
  \<^verbatim>\<open>create_services\<close> does is to reset it.  With a batch that has an active slot and a
  daemon that accepts the adds and the commit, the calls made are the reset, one add for
  each active slot in the order of the batch, under its new name, and the commit; the
  group then holds exactly these services.  The callback runs in the worker's poll loop.
\<close>

theorem group_collision_renames_all_and_recreates:
  assumes "group st = Some g \<or> group st = None"
  shows "entry_group_callback alt g AVAHI_ENTRY_GROUP_COLLISION ctx st
       = create_services alt (avahi_entry_group_get_client g) (rename_all_services alt ctx)
           (st\<lparr>group := Some g\<rparr>)
   \<and> rename_all_services alt ctx = map (renamed alt) ctx
   \<and> obtain_group (avahi_entry_group_get_client g) (st\<lparr>group := Some g\<rparr>)
       = Inr (g, avahi_entry_group_reset g (st\<lparr>group := Some g\<rparr>))
   \<and> (name_iff_port ctx \<and> (\<exists>s \<in> set ctx. port s \<noteq> 0)
        \<and> (\<forall>j < length (filter (\<lambda>s. port s \<noteq> 0) ctx). add_service_results st j = AVAHI_OK)
        \<and> commit_results st 0 = AVAHI_OK
        \<longrightarrow> entry_group_callback alt g AVAHI_ENTRY_GROUP_COLLISION ctx st
          = Some (rename_all_services alt ctx,
                  st\<lparr>group := Some g,
                     add_service_results :=
                       (\<lambda>n. add_service_results st (length (filter (\<lambda>s. port s \<noteq> 0) ctx) + n)),
                     commit_results := (\<lambda>n. commit_results st (Suc n)),
                     entries := entries_of (rename_all_services alt ctx) [0..<length ctx],
                     calls := calls st @ [Entry_group_reset g]
                       @ adds_of g (rename_all_services alt ctx) [0..<length ctx]
                       @ [Entry_group_commit g]\<rparr>))
   \<and> (\<not> poll_quit st \<longrightarrow>
        avahi_mainloop alt (Group_event g AVAHI_ENTRY_GROUP_COLLISION # evs) ctx st
          = (case entry_group_callback alt g AVAHI_ENTRY_GROUP_COLLISION ctx st of
               None \<Rightarrow> None
             | Some (ctx', st') \<Rightarrow> avahi_mainloop alt evs ctx' st'))"
proof (intro conjI impI)
  let ?st = "st\<lparr>group := Some g\<rparr>"
  let ?st1 = "avahi_entry_group_reset g ?st"
  let ?c = "avahi_entry_group_get_client g"
  let ?ctx = "rename_all_services alt ctx"
  show cb: "entry_group_callback alt g AVAHI_ENTRY_GROUP_COLLISION ctx st
      = create_services alt ?c ?ctx ?st"
    using assms by (auto simp: entry_group_callback_def)
  show "?ctx = map (renamed alt) ctx"
    by (rule rename_all_services_eq)
  show og: "obtain_group ?c ?st = Inr (g, ?st1)"
    by (simp add: obtain_group_reset)
  show "entry_group_callback alt g AVAHI_ENTRY_GROUP_COLLISION ctx st
      = Some (?ctx,
              st\<lparr>group := Some g,
                 add_service_results :=
                   (\<lambda>n. add_service_results st (length (filter (\<lambda>s. port s \<noteq> 0) ctx) + n)),
                 commit_results := (\<lambda>n. commit_results st (Suc n)),
                 entries := entries_of ?ctx [0..<length ctx],
                 calls := calls st @ [Entry_group_reset g]
                   @ adds_of g ?ctx [0..<length ctx] @ [Entry_group_commit g]\<rparr>)"
    if h: "name_iff_port ctx \<and> (\<exists>s \<in> set ctx. port s \<noteq> 0)
        \<and> (\<forall>j < length (filter (\<lambda>s. port s \<noteq> 0) ctx). add_service_results st j = AVAHI_OK)
        \<and> commit_results st 0 = AVAHI_OK"
  proof -
    have named: "name_iff_port ?ctx"
      using h by (simp add: rename_all_name_iff_port)
    have some: "ports_set ?ctx [0..<length ?ctx] \<noteq> 0"
      using h by (simp add: rename_all_ports_set filter_empty_conv)
    have adds: "\<forall>j < ports_set ?ctx [0..<length ?ctx]. add_service_results ?st1 j = AVAHI_OK"
      using h by (simp add: rename_all_ports_set avahi_entry_group_reset_def)
    have commit: "commit_results ?st1 0 = AVAHI_OK"
      using h by (simp add: avahi_entry_group_reset_def)
    show ?thesis
      unfolding cb create_services_accepted [OF og named some adds commit]
      by (simp add: rename_all_ports_set_upt rename_all_length avahi_entry_group_reset_def)
  qed
  show "avahi_mainloop alt (Group_event g AVAHI_ENTRY_GROUP_COLLISION # evs) ctx st
      = (case entry_group_callback alt g AVAHI_ENTRY_GROUP_COLLISION ctx st of
           None \<Rightarrow> None
         | Some (ctx', st') \<Rightarrow> avahi_mainloop alt evs ctx' st')"
    if "\<not> poll_quit st"
    using that by (simp add: dispatch_def)
qed

theorem group_collision_renames_all_and_recreates_witness:
  "seen_round (entry_group_callback numbered example_group AVAHI_ENTRY_GROUP_COLLISION
                 default_batch (running [AVAHI_OK, AVAHI_OK]))
     = Some ([Some ''Dire Wolf on host #2'', Some ''Dire Wolf on host #2'', None],
             [Entry_group_reset example_group,
              Entry_group_add_service example_group ''Dire Wolf on host #2'' ''_agwpe._tcp'' 8000,
              Entry_group_add_service example_group ''Dire Wolf on host #2'' ''_kiss-tnc._tcp'' 8001,
              Entry_group_commit example_group],
             False)"
proof -
  let ?st = "running [AVAHI_OK, AVAHI_OK]"
  have a: "group ?st = Some example_group \<or> group ?st = None"
    by (simp add: running_def)
  have h: "name_iff_port default_batch \<and> (\<exists>s \<in> set default_batch. port s \<noteq> 0)
        \<and> (\<forall>j < length (filter (\<lambda>s. port s \<noteq> 0) default_batch). add_service_results ?st j = AVAHI_OK)
        \<and> commit_results ?st 0 = AVAHI_OK"
    by (simp add: default_batch_eq name_iff_port_def running_def avahi_start_def less_Suc_eq)
  note t = group_collision_renames_all_and_recreates [OF a, of numbered default_batch,
      THEN conjunct2, THEN conjunct2, THEN conjunct2, THEN conjunct1, rule_format, OF h]
  show ?thesis
    unfolding t by code_simp
qed

text \<open>
  C2.  \<^verbatim>\<open>create_services\<close>, once it has its group, runs the add loop over the slots
  \<open>0, 1, \<dots>\<close> of the batch in this order, and commits if the loop ends with success.
  When the loop comes to an active slot \<open>i\<close> and the daemon answers its adds with \<open>k\<close>
  collisions and then with something else, the adds made are \<open>k + 1\<close> adds of that same
  service, each under the alternative of the name before; the name of slot \<open>i\<close> ends as
  the \<open>k\<close>-th alternative, its port and channel stay, and no other slot changes; the loop
  then goes on with the slots that follow, or stops if the last answer is an error.  An
  inert slot is skipped, and the loop over \<open>xs @ ys\<close> is the loop over \<open>xs\<close> followed,
  unless a slot of \<open>xs\<close> ended it with an error, by the loop over \<open>ys\<close>.  For a whole
  round in which the adds of each active slot \<open>i\<close> are answered with \<open>ks i\<close> collisions and
  then accepted, and the commit is accepted: \<^verbatim>\<open>create_services\<close> makes, after the reset
  or the creation of the group, the \<open>ks i + 1\<close> adds of each active slot, slot after slot
  in the order of the batch, then the commit; the group holds one service for each active
  slot under its last name; in the batch slot \<open>i\<close> has the \<open>ks i\<close>-th alternative of its
  name and nothing else has changed.  If the daemon answers nothing but collisions,
  neither the loop nor \<^verbatim>\<open>create_services\<close> returns.
\<close>

theorem per_add_collision_retries_that_slot:
  assumes "i < length ctx" and "port (ctx ! i) \<noteq> 0" and "name (ctx ! i) = Some nm"
    and "\<forall>j<k. add_service_results st j = AVAHI_ERR_COLLISION"
    and "add_service_results st k \<noteq> AVAHI_ERR_COLLISION"
  shows "add_each_service alt g (i # is) result ctx st =
     (let e = add_service_results st k;
          ctx' = ctx[i := (ctx ! i)\<lparr>name := Some ((alt ^^ k) nm)\<rparr>];
          st' = st\<lparr>add_service_results := (\<lambda>n. add_service_results st (Suc k + n)),
                  entries := (if e = AVAHI_OK
                              then entries st @ [((alt ^^ k) nm, service_type (i = 0), uint16_t (port (ctx ! i)))]
                              else entries st),
                  calls := calls st
                    @ map (\<lambda>j. add_call g (ctx ! i) (i = 0) ((alt ^^ j) nm)) [0..<Suc k]\<rparr>
      in if e \<noteq> AVAHI_OK then Some (e, ctx', st') else add_each_service alt g is e ctx' st')
   \<and> (\<forall>j < length ctx. j \<noteq> i \<longrightarrow>
         ctx[i := (ctx ! i)\<lparr>name := Some ((alt ^^ k) nm)\<rparr>] ! j = ctx ! j)
   \<and> port (ctx[i := (ctx ! i)\<lparr>name := Some ((alt ^^ k) nm)\<rparr>] ! i) = port (ctx ! i)
   \<and> channel (ctx[i := (ctx ! i)\<lparr>name := Some ((alt ^^ k) nm)\<rparr>] ! i) = channel (ctx ! i)
   \<and> ((\<forall>j. add_service_results st2 j = AVAHI_ERR_COLLISION) \<longrightarrow>
         add_each_service alt g (i # is) result ctx st2 = None)
   \<and> (port (ctx2 ! i) = 0 \<longrightarrow>
         add_each_service alt g (i # is) result ctx2 st2 = add_each_service alt g is result ctx2 st2)
   \<and> add_each_service alt g (xs @ ys) result ctx2 st2 =
         (case add_each_service alt g xs result ctx2 st2 of
            None \<Rightarrow> None
          | Some (e, ctx', st') \<Rightarrow>
              if ports_set ctx2 xs \<noteq> 0 \<and> e \<noteq> AVAHI_OK then Some (e, ctx', st')
              else add_each_service alt g ys e ctx' st')
   \<and> (obtain_group c st0 = Inr (g0, st1) \<longrightarrow>
         create_services alt c ctx0 st0 =
           (case add_each_service alt g0 [0..<length ctx0] (indeterminate_result st1) ctx0 st1 of
              None \<Rightarrow> None
            | Some (e, ctx', st') \<Rightarrow>
                if e \<noteq> AVAHI_OK then Some (ctx', dns_sd_term_avahi st')
                else (case avahi_entry_group_commit g0 st' of
                        (e', st'') \<Rightarrow>
                          if e' \<noteq> AVAHI_OK then Some (ctx', dns_sd_term_avahi st'')
                          else Some (ctx', st''))))
   \<and> (obtain_group c st0 = Inr (g0, st1) \<and> name_iff_port ctx0
        \<and> ports_set ctx0 [0..<length ctx0] \<noteq> 0
        \<and> (\<forall>n < length (round_answers ks ctx0 [0..<length ctx0]).
              add_service_results st0 n = round_answers ks ctx0 [0..<length ctx0] ! n)
        \<and> commit_results st0 0 = AVAHI_OK
        \<longrightarrow> create_services alt c ctx0 st0 =
              Some (round_batch alt ks ctx0 [0..<length ctx0],
                    st1\<lparr>add_service_results :=
                           (\<lambda>n. add_service_results st0
                                  (length (round_answers ks ctx0 [0..<length ctx0]) + n)),
                        commit_results := (\<lambda>n. commit_results st0 (Suc n)),
                        entries := round_entries alt ks ctx0 [0..<length ctx0],
                        calls := calls st1 @ round_calls alt g0 ks ctx0 [0..<length ctx0]
                          @ [Entry_group_commit g0]\<rparr>))
   \<and> (obtain_group c st0 = Inr (g0, st1) \<and> ports_set ctx0 [0..<length ctx0] \<noteq> 0
        \<and> (\<forall>j. add_service_results st0 j = AVAHI_ERR_COLLISION)
        \<longrightarrow> create_services alt c ctx0 st0 = None)"
proof (intro conjI allI impI)
  show "add_each_service alt g (i # is) result ctx st =
     (let e = add_service_results st k;
          ctx' = ctx[i := (ctx ! i)\<lparr>name := Some ((alt ^^ k) nm)\<rparr>];
          st' = st\<lparr>add_service_results := (\<lambda>n. add_service_results st (Suc k + n)),
                  entries := (if e = AVAHI_OK
                              then entries st @ [((alt ^^ k) nm, service_type (i = 0), uint16_t (port (ctx ! i)))]
                              else entries st),
                  calls := calls st
                    @ map (\<lambda>j. add_call g (ctx ! i) (i = 0) ((alt ^^ j) nm)) [0..<Suc k]\<rparr>
      in if e \<noteq> AVAHI_OK then Some (e, ctx', st') else add_each_service alt g is e ctx' st')"
    by (rule add_each_service_step [OF assms(2-5)])
  show "ctx[i := (ctx ! i)\<lparr>name := Some ((alt ^^ k) nm)\<rparr>] ! j = ctx ! j" if "j \<noteq> i" for j
    using that by simp
  show "port (ctx[i := (ctx ! i)\<lparr>name := Some ((alt ^^ k) nm)\<rparr>] ! i) = port (ctx ! i)"
    using assms(1) by simp
  show "channel (ctx[i := (ctx ! i)\<lparr>name := Some ((alt ^^ k) nm)\<rparr>] ! i) = channel (ctx ! i)"
    using assms(1) by simp
  show "add_each_service alt g (i # is) result ctx st2 = None"
    if "\<forall>j. add_service_results st2 j = AVAHI_ERR_COLLISION"
    using assms(2) that by (rule add_each_service_no_answer)
  show "add_each_service alt g (i # is) result ctx2 st2 = add_each_service alt g is result ctx2 st2"
    if "port (ctx2 ! i) = 0"
    using that by simp
  show "add_each_service alt g (xs @ ys) result ctx2 st2 =
         (case add_each_service alt g xs result ctx2 st2 of
            None \<Rightarrow> None
          | Some (e, ctx', st') \<Rightarrow>
              if ports_set ctx2 xs \<noteq> 0 \<and> e \<noteq> AVAHI_OK then Some (e, ctx', st')
              else add_each_service alt g ys e ctx' st')"
    by (rule add_each_service_append)
  show "create_services alt c ctx0 st0 =
           (case add_each_service alt g0 [0..<length ctx0] (indeterminate_result st1) ctx0 st1 of
              None \<Rightarrow> None
            | Some (e, ctx', st') \<Rightarrow>
                if e \<noteq> AVAHI_OK then Some (ctx', dns_sd_term_avahi st')
                else (case avahi_entry_group_commit g0 st' of
                        (e', st'') \<Rightarrow>
                          if e' \<noteq> AVAHI_OK then Some (ctx', dns_sd_term_avahi st'')
                          else Some (ctx', st'')))"
    if "obtain_group c st0 = Inr (g0, st1)"
    using that by (rule create_services_eq)
  show "create_services alt c ctx0 st0 =
              Some (round_batch alt ks ctx0 [0..<length ctx0],
                    st1\<lparr>add_service_results :=
                           (\<lambda>n. add_service_results st0
                                  (length (round_answers ks ctx0 [0..<length ctx0]) + n)),
                        commit_results := (\<lambda>n. commit_results st0 (Suc n)),
                        entries := round_entries alt ks ctx0 [0..<length ctx0],
                        calls := calls st1 @ round_calls alt g0 ks ctx0 [0..<length ctx0]
                          @ [Entry_group_commit g0]\<rparr>)"
    if "obtain_group c st0 = Inr (g0, st1) \<and> name_iff_port ctx0
        \<and> ports_set ctx0 [0..<length ctx0] \<noteq> 0
        \<and> (\<forall>n < length (round_answers ks ctx0 [0..<length ctx0]).
              add_service_results st0 n = round_answers ks ctx0 [0..<length ctx0] ! n)
        \<and> commit_results st0 0 = AVAHI_OK"
    using that by (intro create_services_round) simp_all
  show "create_services alt c ctx0 st0 = None"
    if "obtain_group c st0 = Inr (g0, st1) \<and> ports_set ctx0 [0..<length ctx0] \<noteq> 0
        \<and> (\<forall>j. add_service_results st0 j = AVAHI_ERR_COLLISION)"
    using that by (intro create_services_never [of c st0 g0 st1]) simp_all
qed

theorem per_add_collision_retries_that_slot_witness:
  "seen_round (create_services numbered 2 default_batch
                 (running [AVAHI_ERR_COLLISION, AVAHI_OK, AVAHI_OK]))
     = Some ([Some ''Dire Wolf on host #2'', Some ''Dire Wolf on host'', None],
             [Entry_group_reset example_group,
              Entry_group_add_service example_group ''Dire Wolf on host'' ''_agwpe._tcp'' 8000,
              Entry_group_add_service example_group ''Dire Wolf on host #2'' ''_agwpe._tcp'' 8000,
              Entry_group_add_service example_group ''Dire Wolf on host'' ''_kiss-tnc._tcp'' 8001,
              Entry_group_commit example_group],
             False)"
proof -
  let ?st = "running [AVAHI_ERR_COLLISION, AVAHI_OK, AVAHI_OK]"
  let ?st1 = "avahi_entry_group_reset example_group ?st"
  let ?ks = "(!) [1, 0, 0 :: nat]"
  have h: "0 < length default_batch" "port (default_batch ! 0) \<noteq> 0"
    "name (default_batch ! 0) = Some ''Dire Wolf on host''"
    "\<forall>j<1. add_service_results ?st j = AVAHI_ERR_COLLISION"
    "add_service_results ?st 1 \<noteq> AVAHI_ERR_COLLISION"
    by (simp_all add: default_batch_eq running_def AVAHI_codes)
  have ra: "round_answers ?ks default_batch [0..<length default_batch]
      = [AVAHI_ERR_COLLISION, AVAHI_OK, AVAHI_OK]"
    by (simp add: default_batch_eq upt_rec)
  have r: "obtain_group 2 ?st = Inr (example_group, ?st1) \<and> name_iff_port default_batch
        \<and> ports_set default_batch [0..<length default_batch] \<noteq> 0
        \<and> (\<forall>n < length (round_answers ?ks default_batch [0..<length default_batch]).
              add_service_results ?st n
                = round_answers ?ks default_batch [0..<length default_batch] ! n)
        \<and> commit_results ?st 0 = AVAHI_OK"
    unfolding ra
    by (simp add: obtain_group_def running_def avahi_start_def default_batch_eq
        name_iff_port_def ports_set_def upt_rec)
  note t = per_add_collision_retries_that_slot [OF h, of numbered example_group "[1, 2]" 0
      _ _ _ _ 2 ?st example_group ?st1 default_batch ?ks,
      THEN conjunct2, THEN conjunct2, THEN conjunct2, THEN conjunct2, THEN conjunct2,
      THEN conjunct2, THEN conjunct2, THEN conjunct2, THEN conjunct1, rule_format, OF r]
  show ?thesis
    by (subst t, code_simp)
qed

text \<open>
  C3.  A round of \<^verbatim>\<open>create_services\<close> in which the slots before the active slot \<open>i\<close>
  are added (slot \<open>j\<close> after \<open>ks j\<close> collisions) and the adds of slot \<open>i\<close> end, after
  \<open>k\<close> collisions, with a code \<open>e\<close> that is neither success nor collision, in a state
  that has its poll object \<open>q\<close>.  Then \<^verbatim>\<open>create_services\<close> returns after these calls
  and no other: the reset or creation of the group, the adds of the slots before \<open>i\<close>,
  the \<open>k + 1\<close> adds of slot \<open>i\<close>, and \<^verbatim>\<open>avahi_simple_poll_quit\<close>.  There is no add for a
  slot after \<open>i\<close>, and those slots are unchanged; there is no commit, and the answers
  the daemon has in store for commits are untouched; the quit flag of the poll object is
  set.  In the worker thread the poll loop then ends and \<^verbatim>\<open>cleanup\<close> releases the
  group, the client if there is one, the poll object and the batch, in this order, and
  sets the three static variables to \<^verbatim>\<open>NULL\<close>; events that arrive later are not
  handled.  The same teardown follows any callback that has set the quit flag, and it is
  what the thread does at once when the flag was set before the thread started.  The
  poll object is there whenever \<^verbatim>\<open>create_services\<close> runs: \<^verbatim>\<open>dns_sd_announce\<close> runs the
  callbacks of \<^verbatim>\<open>avahi_client_new\<close> only with the poll object it has just created, no
  callback changes \<^verbatim>\<open>simple_poll\<close>, the thread is started with that poll object, and as
  long as the worker thread has not ended \<^verbatim>\<open>simple_poll\<close> is what it was when the thread
  started.
\<close>

theorem fatal_add_error_aborts_the_round:
  assumes "obtain_group c st = Inr (g, st1)"
    and "name_iff_port ctx"
    and "i < length ctx" and "port (ctx ! i) \<noteq> 0" and "name (ctx ! i) = Some nm"
    and "\<forall>n < length (round_answers ks ctx [0..<i]).
           add_service_results st n = round_answers ks ctx [0..<i] ! n"
    and "\<forall>j<k. add_service_results st (length (round_answers ks ctx [0..<i]) + j)
           = AVAHI_ERR_COLLISION"
    and "add_service_results st (length (round_answers ks ctx [0..<i]) + k) = e"
    and "e \<noteq> AVAHI_ERR_COLLISION" and "e \<noteq> AVAHI_OK"
    and "simple_poll st = Some q"
  shows "create_services alt c ctx st =
       Some ((round_batch alt ks ctx [0..<i])[i := (ctx ! i)\<lparr>name := Some ((alt ^^ k) nm)\<rparr>],
             st1\<lparr>poll_quit := True,
                 add_service_results :=
                   (\<lambda>n. add_service_results st
                          (length (round_answers ks ctx [0..<i]) + Suc k + n)),
                 entries := round_entries alt ks ctx [0..<i],
                 calls := calls st1 @ round_calls alt g ks ctx [0..<i]
                   @ map (\<lambda>j. add_call g (ctx ! i) (i = 0) ((alt ^^ j) nm)) [0..<Suc k]
                   @ [Simple_poll_quit q]\<rparr>)
   \<and> calls st1 = calls st
       @ [case group st of Some g' \<Rightarrow> Entry_group_reset g' | None \<Rightarrow> Entry_group_new c]
   \<and> (case create_services alt c ctx st of
         None \<Rightarrow> False
       | Some (ctx', st') \<Rightarrow>
           poll_quit st' \<and> simple_poll st' = Some q \<and> group st' = Some g
           \<and> commit_results st' = commit_results st
           \<and> filter is_commit (drop (length (calls st)) (calls st')) = []
           \<and> (\<forall>j < length ctx. i < j \<longrightarrow> ctx' ! j = ctx ! j))
   \<and> (\<not> poll_quit st \<longrightarrow>
         avahi_mainloop alt (Client_event c AVAHI_CLIENT_S_RUNNING # evs) ctx st =
           Some (st1\<lparr>group := None, client := None, simple_poll := None, avahi_thread := None,
                     poll_quit := True,
                     add_service_results :=
                       (\<lambda>n. add_service_results st
                              (length (round_answers ks ctx [0..<i]) + Suc k + n)),
                     entries := [],
                     calls := calls st1 @ round_calls alt g ks ctx [0..<i]
                       @ map (\<lambda>j. add_call g (ctx ! i) (i = 0) ((alt ^^ j) nm)) [0..<Suc k]
                       @ [Simple_poll_quit q, Entry_group_free g]
                       @ (case client st of Some c' \<Rightarrow> [Client_free c'] | None \<Rightarrow> [])
                       @ [Simple_poll_free q, Free_ctx]\<rparr>))
   \<and> (poll_quit s \<longrightarrow>
         avahi_mainloop alt evs ctx3 s =
           Some (s\<lparr>group := None, client := None, simple_poll := None, avahi_thread := None,
                   entries := (case group s of Some g' \<Rightarrow> [] | None \<Rightarrow> entries s),
                   calls := calls s @ releases s\<rparr>))
   \<and> (\<not> poll_quit s \<and> dispatch alt ev ctx3 s = Some (ctx4, s') \<and> poll_quit s' \<longrightarrow>
         avahi_mainloop alt (ev # evs) ctx3 s =
           Some (s'\<lparr>group := None, client := None, simple_poll := None, avahi_thread := None,
                    entries := (case group s' of Some g' \<Rightarrow> [] | None \<Rightarrow> entries s'),
                    calls := calls s' @ releases s'\<rparr>))
   \<and> (create_services alt c3 ctx3 s = Some (ctx4, s') \<longrightarrow> simple_poll s' = simple_poll s)
   \<and> (dispatch alt ev ctx3 s = Some (ctx4, s') \<longrightarrow> simple_poll s' = simple_poll s)
   \<and> (client_new_callbacks alt c3 states ctx3 s = Some (ctx4, s') \<longrightarrow>
         simple_poll s' = simple_poll s)
   \<and> (avahi_mainloop alt evs ctx3 s = Some s' \<longrightarrow>
         (case avahi_thread s' of
            None \<Rightarrow> poll_quit s' \<and> simple_poll s' = None \<and> group s' = None \<and> client s' = None
          | Some ctx' \<Rightarrow> \<not> poll_quit s' \<and> simple_poll s' = simple_poll s))
   \<and> (dns_sd_service_count K mc \<noteq> 0 \<and> simple_poll_new_result s = Some q' \<longrightarrow>
         dns_sd_announce_avahi alt K mc gh s =
           (case client_new_callbacks alt (cn_client (client_new_result s))
                   (cn_events (client_new_result s)) (dns_sd_create_context K mc gh)
                   (s\<lparr>simple_poll := Some q',
                      calls := calls s @ [Simple_poll_new, Client_new q']\<rparr>) of
              None \<Rightarrow> None
            | Some (ctx', s'') \<Rightarrow>
                (case cn_error (client_new_result s) of
                   None \<Rightarrow> Some (s''\<lparr>client := Some (cn_client (client_new_result s)),
                                      avahi_thread := Some ctx',
                                      calls := calls s'' @ [Pthread_create]\<rparr>)
                 | Some err \<Rightarrow>
                     if err = 0
                     then Some (s''\<lparr>client := None, avahi_thread := Some ctx',
                                     calls := calls s'' @ [Pthread_create]\<rparr>)
                     else Some (cleanup ctx' (s''\<lparr>client := None\<rparr>)))))
   \<and> (dns_sd_service_count K mc \<noteq> 0 \<and> simple_poll_new_result s = Some q'
        \<and> cn_error (client_new_result s) = None
        \<and> dns_sd_announce_avahi alt K mc gh s = Some s'
        \<longrightarrow> simple_poll s' = Some q' \<and> avahi_thread s' \<noteq> None
            \<and> client s' = Some (cn_client (client_new_result s)))"
proof (intro conjI impI)
  note f = obtain_group_frame [OF assms(1)]
  let ?L = "length (round_answers ks ctx [0..<i])"
  let ?adds = "map (\<lambda>j. add_call g (ctx ! i) (i = 0) ((alt ^^ j) nm)) [0..<Suc k]"
  let ?ctx = "(round_batch alt ks ctx [0..<i])[i := (ctx ! i)\<lparr>name := Some ((alt ^^ k) nm)\<rparr>]"
  let ?st = "st1\<lparr>poll_quit := True,
                 add_service_results := (\<lambda>n. add_service_results st (?L + Suc k + n)),
                 entries := round_entries alt ks ctx [0..<i],
                 calls := calls st1 @ round_calls alt g ks ctx [0..<i] @ ?adds
                   @ [Simple_poll_quit q]\<rparr>"
  show cs: "create_services alt c ctx st = Some (?ctx, ?st)"
    by (rule create_services_fatal [OF assms(1) assms(3-5) assms(2) assms(6-11)])
  show "calls st1 = calls st
       @ [case group st of Some g' \<Rightarrow> Entry_group_reset g' | None \<Rightarrow> Entry_group_new c]"
    by (rule f(9))
  have nc: "filter is_commit ?adds = []"
    by (simp add: add_call_def filter_empty_conv)
  have rest: "\<forall>j < length ctx. i < j \<longrightarrow> ?ctx ! j = ctx ! j"
    by (simp add: round_batch_nth)
  show "case create_services alt c ctx st of
         None \<Rightarrow> False
       | Some (ctx', st') \<Rightarrow>
           poll_quit st' \<and> simple_poll st' = Some q \<and> group st' = Some g
           \<and> commit_results st' = commit_results st
           \<and> filter is_commit (drop (length (calls st)) (calls st')) = []
           \<and> (\<forall>j < length ctx. i < j \<longrightarrow> ctx' ! j = ctx ! j)"
  proof -
    let ?first = "case group st of Some g' \<Rightarrow> Entry_group_reset g' | None \<Rightarrow> Entry_group_new c"
    have "calls ?st = calls st
        @ (?first # round_calls alt g ks ctx [0..<i] @ ?adds @ [Simple_poll_quit q])"
      by (simp add: f)
    then have "drop (length (calls st)) (calls ?st)
        = ?first # round_calls alt g ks ctx [0..<i] @ ?adds @ [Simple_poll_quit q]"
      by simp
    moreover have "filter is_commit
        (?first # round_calls alt g ks ctx [0..<i] @ ?adds @ [Simple_poll_quit q]) = []"
      by (simp only: filter.simps filter_append round_calls_no_commit nc)
        (simp split: option.splits)
    ultimately have "filter is_commit (drop (length (calls st)) (calls ?st)) = []"
      by simp
    with rest show ?thesis
      unfolding cs by (simp add: f assms(11))
  qed
  show "avahi_mainloop alt (Client_event c AVAHI_CLIENT_S_RUNNING # evs) ctx st =
           Some (st1\<lparr>group := None, client := None, simple_poll := None, avahi_thread := None,
                     poll_quit := True,
                     add_service_results := (\<lambda>n. add_service_results st (?L + Suc k + n)),
                     entries := [],
                     calls := calls st1 @ round_calls alt g ks ctx [0..<i] @ ?adds
                       @ [Simple_poll_quit q, Entry_group_free g]
                       @ (case client st of Some c' \<Rightarrow> [Client_free c'] | None \<Rightarrow> [])
                       @ [Simple_poll_free q, Free_ctx]\<rparr>)"
    if "\<not> poll_quit st"
  proof -
    have "avahi_mainloop alt (Client_event c AVAHI_CLIENT_S_RUNNING # evs) ctx st
        = avahi_mainloop alt evs ?ctx ?st"
      using that by (simp add: dispatch_def client_callback_def cs)
    also have "\<dots> = Some (?st\<lparr>group := None, client := None, simple_poll := None,
        avahi_thread := None,
        entries := (case group ?st of Some g' \<Rightarrow> [] | None \<Rightarrow> entries ?st),
        calls := calls ?st @ releases ?st\<rparr>)"
      by (rule avahi_mainloop_quit) simp
    finally show ?thesis
      by (simp add: releases_def f assms(11))
  qed
  show "avahi_mainloop alt evs ctx3 s =
           Some (s\<lparr>group := None, client := None, simple_poll := None, avahi_thread := None,
                   entries := (case group s of Some g' \<Rightarrow> [] | None \<Rightarrow> entries s),
                   calls := calls s @ releases s\<rparr>)"
    if "poll_quit s"
    using that by (rule avahi_mainloop_quit)
  show "avahi_mainloop alt (ev # evs) ctx3 s =
           Some (s'\<lparr>group := None, client := None, simple_poll := None, avahi_thread := None,
                    entries := (case group s' of Some g' \<Rightarrow> [] | None \<Rightarrow> entries s'),
                    calls := calls s' @ releases s'\<rparr>)"
    if "\<not> poll_quit s \<and> dispatch alt ev ctx3 s = Some (ctx4, s') \<and> poll_quit s'"
  proof -
    have "avahi_mainloop alt (ev # evs) ctx3 s = avahi_mainloop alt evs ctx4 s'"
      using that by simp
    also have "\<dots> = Some (s'\<lparr>group := None, client := None, simple_poll := None,
        avahi_thread := None,
        entries := (case group s' of Some g' \<Rightarrow> [] | None \<Rightarrow> entries s'),
        calls := calls s' @ releases s'\<rparr>)"
      using that by (intro avahi_mainloop_quit) simp
    finally show ?thesis .
  qed
  show "simple_poll s' = simple_poll s" if "create_services alt c3 ctx3 s = Some (ctx4, s')"
    using that by (rule create_services_keeps_poll)
  show "simple_poll s' = simple_poll s" if "dispatch alt ev ctx3 s = Some (ctx4, s')"
    using that by (rule dispatch_keeps_poll)
  show "simple_poll s' = simple_poll s"
    if "client_new_callbacks alt c3 states ctx3 s = Some (ctx4, s')"
    using that by (rule client_new_callbacks_keeps_poll)
  show "case avahi_thread s' of
            None \<Rightarrow> poll_quit s' \<and> simple_poll s' = None \<and> group s' = None \<and> client s' = None
          | Some ctx' \<Rightarrow> \<not> poll_quit s' \<and> simple_poll s' = simple_poll s"
    if "avahi_mainloop alt evs ctx3 s = Some s'"
    using that by (rule avahi_mainloop_keeps_poll)
  show "dns_sd_announce_avahi alt K mc gh s =
           (case client_new_callbacks alt (cn_client (client_new_result s))
                   (cn_events (client_new_result s)) (dns_sd_create_context K mc gh)
                   (s\<lparr>simple_poll := Some q',
                      calls := calls s @ [Simple_poll_new, Client_new q']\<rparr>) of
              None \<Rightarrow> None
            | Some (ctx', s'') \<Rightarrow>
                (case cn_error (client_new_result s) of
                   None \<Rightarrow> Some (s''\<lparr>client := Some (cn_client (client_new_result s)),
                                      avahi_thread := Some ctx',
                                      calls := calls s'' @ [Pthread_create]\<rparr>)
                 | Some err \<Rightarrow>
                     if err = 0
                     then Some (s''\<lparr>client := None, avahi_thread := Some ctx',
                                     calls := calls s'' @ [Pthread_create]\<rparr>)
                     else Some (cleanup ctx' (s''\<lparr>client := None\<rparr>))))"
    if "dns_sd_service_count K mc \<noteq> 0 \<and> simple_poll_new_result s = Some q'"
    using that by (intro dns_sd_announce_avahi_eq) simp_all
  have started: "simple_poll s' = Some q' \<and> avahi_thread s' \<noteq> None
            \<and> client s' = Some (cn_client (client_new_result s))"
    if "dns_sd_service_count K mc \<noteq> 0 \<and> simple_poll_new_result s = Some q'
        \<and> cn_error (client_new_result s) = None
        \<and> dns_sd_announce_avahi alt K mc gh s = Some s'"
    using that by (intro dns_sd_announce_avahi_starts_thread [of K mc s q' alt gh s']) simp_all
  show "simple_poll s' = Some q'"
    if "dns_sd_service_count K mc \<noteq> 0 \<and> simple_poll_new_result s = Some q'
        \<and> cn_error (client_new_result s) = None
        \<and> dns_sd_announce_avahi alt K mc gh s = Some s'"
    using started [OF that] by simp
  show "avahi_thread s' \<noteq> None"
    if "dns_sd_service_count K mc \<noteq> 0 \<and> simple_poll_new_result s = Some q'
        \<and> cn_error (client_new_result s) = None
        \<and> dns_sd_announce_avahi alt K mc gh s = Some s'"
    using started [OF that] by simp
  show "client s' = Some (cn_client (client_new_result s))"
    if "dns_sd_service_count K mc \<noteq> 0 \<and> simple_poll_new_result s = Some q'
        \<and> cn_error (client_new_result s) = None
        \<and> dns_sd_announce_avahi alt K mc gh s = Some s'"
    using started [OF that] by simp
qed


theorem fatal_add_error_aborts_the_round_witness:
  "seen_round (create_services numbered 2 two_channel_batch
                 (running [AVAHI_ERR_COLLISION, AVAHI_OK, - 1]))
     = Some ([Some ''TNC on host #2'', Some ''TNC channel 0 on host'', Some ''TNC channel 1 on host''],
             [Entry_group_reset example_group,
              Entry_group_add_service example_group ''TNC on host'' ''_agwpe._tcp'' 8000,
              Entry_group_add_service example_group ''TNC on host #2'' ''_agwpe._tcp'' 8000,
              Entry_group_add_service example_group ''TNC channel 0 on host'' ''_kiss-tnc._tcp'' 8001,
              Simple_poll_quit 1],
             True)
   \<and> seen_end (avahi_mainloop numbered
                  [Client_event 2 AVAHI_CLIENT_S_RUNNING,
                   Group_event example_group AVAHI_ENTRY_GROUP_ESTABLISHED]
                  two_channel_batch (running [AVAHI_ERR_COLLISION, AVAHI_OK, - 1]))
     = Some ([Entry_group_reset example_group,
              Entry_group_add_service example_group ''TNC on host'' ''_agwpe._tcp'' 8000,
              Entry_group_add_service example_group ''TNC on host #2'' ''_agwpe._tcp'' 8000,
              Entry_group_add_service example_group ''TNC channel 0 on host'' ''_kiss-tnc._tcp'' 8001,
              Simple_poll_quit 1,
              Entry_group_free example_group, Client_free 2, Simple_poll_free 1, Free_ctx],
             None, None, None, None)
   \<and> seen_end (worker_after numbered []
         (dns_sd_announce_avahi numbered 2 two_channel_config (Some ''host'')
            (avahi_start\<lparr>add_service_results := (!) [AVAHI_ERR_COLLISION, AVAHI_OK, - 1]\<rparr>)))
     = Some ([Simple_poll_new, Client_new 1, Entry_group_new 2,
              Entry_group_add_service (AvahiEntryGroup 0 2) ''TNC on host'' ''_agwpe._tcp'' 8000,
              Entry_group_add_service (AvahiEntryGroup 0 2) ''TNC on host #2'' ''_agwpe._tcp'' 8000,
              Entry_group_add_service (AvahiEntryGroup 0 2) ''TNC channel 0 on host''
                ''_kiss-tnc._tcp'' 8001,
              Simple_poll_quit 1, Pthread_create,
              Entry_group_free (AvahiEntryGroup 0 2), Client_free 2, Simple_poll_free 1, Free_ctx],
             None, None, None, None)"
proof -
  let ?st = "running [AVAHI_ERR_COLLISION, AVAHI_OK, - 1]"
  let ?st1 = "avahi_entry_group_reset example_group ?st"
  let ?ks = "(!) [1, 0, 0 :: nat]"
  have ra: "round_answers ?ks two_channel_batch [0..<1] = [AVAHI_ERR_COLLISION, AVAHI_OK]"
    by (simp add: two_channel_batch_eq)
  have h: "obtain_group 2 ?st = Inr (example_group, ?st1)"
    "name_iff_port two_channel_batch"
    "1 < length two_channel_batch" "port (two_channel_batch ! 1) \<noteq> 0"
    "name (two_channel_batch ! 1) = Some ''TNC channel 0 on host''"
    "\<forall>n < length (round_answers ?ks two_channel_batch [0..<1]).
       add_service_results ?st n = round_answers ?ks two_channel_batch [0..<1] ! n"
    "\<forall>j<0. add_service_results ?st (length (round_answers ?ks two_channel_batch [0..<1]) + j)
       = AVAHI_ERR_COLLISION"
    "add_service_results ?st (length (round_answers ?ks two_channel_batch [0..<1]) + 0) = - 1"
    "- 1 \<noteq> AVAHI_ERR_COLLISION" "- 1 \<noteq> AVAHI_OK"
    "simple_poll ?st = Some 1"
    unfolding ra
    by (simp_all add: obtain_group_def running_def avahi_start_def two_channel_batch_eq
        name_iff_port_def AVAHI_OK_def AVAHI_ERR_COLLISION_def less_Suc_eq)
  note t = fatal_add_error_aborts_the_round [OF h, of numbered]
  have q: "\<not> poll_quit ?st"
    by (simp add: running_def avahi_start_def)
  note t1 = t [THEN conjunct1]
  note t4 = t [THEN conjunct2, THEN conjunct2, THEN conjunct2, THEN conjunct1, rule_format, OF q]
  show ?thesis
    by (subst t1, subst t4, code_simp)
qed

subsection \<open>Claims about the per-service backend\<close>

text \<open>
  C8.  With at least one port configured, \<^verbatim>\<open>dns_sd_announce\<close> of the per-service
  backend makes one call of \<^verbatim>\<open>DNSServiceRegister\<close> for each slot with a non-zero port, in
  the order of the batch, and then starts the thread; it makes no other call.  There are
  as many registrations as services counted.  The reference table holds for slot \<open>i\<close> the
  reference its registration returned if the slot has a port and the call returned
  \<^verbatim>\<open>kDNSServiceErr_NoError\<close>, and is empty there otherwise (\<open>kept_ref\<close>); for each
  registration one line is printed, the failure as an error (\<open>announce_message\<close>).  The
  worker thread never calls \<^verbatim>\<open>DNSServiceRegister\<close>: whatever events it handles, the
  registrations in the trace stay the same.
\<close>

theorem one_registration_per_active_slot:
  assumes "dns_sd_service_count K mc \<noteq> 0"
  shows "sys_calls (dns_sd_announce_macos K mc gh st)
       = sys_calls st
         @ map (register_call (dns_sd_create_context K mc gh))
             (with_port (dns_sd_create_context K mc gh) (MAX_DNS_SD_SERVICES K))
         @ [Sys_pthread_create]
   \<and> int (length (with_port (dns_sd_create_context K mc gh) (MAX_DNS_SD_SERVICES K)))
       = dns_sd_service_count K mc
   \<and> event_thread (dns_sd_announce_macos K mc gh st)
       = Some \<lparr>svcs_ctx = dns_sd_create_context K mc gh,
               sd_ref = map (kept_ref (dns_sd_create_context K mc gh) (register_results st))
                          [0..<MAX_DNS_SD_SERVICES K],
               sd_fd = replicate (MAX_DNS_SD_SERVICES K) 0\<rparr>
   \<and> printed (dns_sd_announce_macos K mc gh st)
       = printed st
         @ map (announce_message (dns_sd_create_context K mc gh) (register_results st))
             (with_port (dns_sd_create_context K mc gh) (MAX_DNS_SD_SERVICES K))
   \<and> register_calls (process_events svcs outs st2) = register_calls st2"
  by (simp add: dns_sd_announce_macos_eq [OF assms] with_port_count process_events_register_calls)

theorem one_registration_per_active_slot_witness:
  "sys_calls (dns_sd_announce_macos 2 default_config (Some ''host'') second_refused)
     = [DNSServiceRegister (Some ''Dire Wolf on host'') ''_agwpe._tcp'' (htons 8000) 0,
        DNSServiceRegister (Some ''Dire Wolf on host'') ''_kiss-tnc._tcp'' (htons 8001) 1,
        Sys_pthread_create]
   \<and> map_option sd_ref (event_thread (dns_sd_announce_macos 2 default_config (Some ''host'') second_refused))
     = Some [Some 100, None, None]
   \<and> printed (dns_sd_announce_macos 2 default_config (Some ''host'') second_refused)
     = [(DW_COLOR_INFO, Announcing ''AGWPE'' 8000 (Some ''Dire Wolf on host'')),
        (DW_COLOR_ERROR, Failed_to_announce (Some ''Dire Wolf on host'') (- 65537))]"
proof -
  have n: "dns_sd_service_count 2 default_config \<noteq> 0"
    by code_simp
  note t = one_registration_per_active_slot [OF n, of "Some ''host''" second_refused]
  have 1: "sys_calls second_refused
         @ map (register_call (dns_sd_create_context 2 default_config (Some ''host'')))
             (with_port (dns_sd_create_context 2 default_config (Some ''host'')) (MAX_DNS_SD_SERVICES 2))
         @ [Sys_pthread_create]
     = [DNSServiceRegister (Some ''Dire Wolf on host'') ''_agwpe._tcp'' (htons 8000) 0,
        DNSServiceRegister (Some ''Dire Wolf on host'') ''_kiss-tnc._tcp'' (htons 8001) 1,
        Sys_pthread_create]"
    by code_simp
  have 2: "map (kept_ref (dns_sd_create_context 2 default_config (Some ''host''))
               (register_results second_refused)) [0..<MAX_DNS_SD_SERVICES 2]
     = [Some 100, None, None]"
    by code_simp
  have 3: "printed second_refused
         @ map (announce_message (dns_sd_create_context 2 default_config (Some ''host''))
                  (register_results second_refused))
             (with_port (dns_sd_create_context 2 default_config (Some ''host'')) (MAX_DNS_SD_SERVICES 2))
     = [(DW_COLOR_INFO, Announcing ''AGWPE'' 8000 (Some ''Dire Wolf on host'')),
        (DW_COLOR_ERROR, Failed_to_announce (Some ''Dire Wolf on host'') (- 65537))]"
    by code_simp
  from t 1 2 3 show ?thesis
    by simp
qed

text \<open>
  C7, where the code fails it.  In the per-service backend the worker thread closes both
  ends of the stop pipe when it finishes, but leaves their numbers in \<^verbatim>\<open>stop_fd\<close>.  A
  \<^verbatim>\<open>dns_sd_term\<close> after the session has terminated therefore is not a no-op: it calls
  \<^verbatim>\<open>write\<close> on descriptor 4, which is no longer open (and may by then belong to any file
  the process has opened since).
\<close>

theorem term_after_termination_writes_to_stale_descriptor:
  "event_thread terminated_session = None
   \<and> stop_fd terminated_session = (3, 4)
   \<and> open_fds terminated_session = [0, 1, 2]
   \<and> sys_calls (dns_sd_term_macos terminated_session)
       = sys_calls terminated_session @ [Sys_write 4]"
  by code_simp

subsection \<open>Nothing to announce\<close>

text \<open>
  C6.  The count of services is zero exactly when no port is configured, and then
  \<^verbatim>\<open>dns_sd_announce\<close> returns at once, in both backends: the state it returns is the
  state it was given, with no poll object, no client, no context, no thread and no call
  made.
\<close>

theorem announce_without_ports_is_a_no_op:
  "(dns_sd_service_count K mc = 0) = (agwpe_port mc = 0 \<and> (\<forall>i<K. kiss_port mc i = 0))
   \<and> (dns_sd_service_count K mc = 0 \<longrightarrow>
         dns_sd_announce_avahi alt K mc gh st = Some st
       \<and> dns_sd_announce_macos K mc gh st' = st')"
  by (simp add: count_zero_iff dns_sd_announce_avahi_def dns_sd_announce_macos_def)

theorem announce_without_ports_is_a_no_op_witness:
  "dns_sd_service_count 2 no_ports_config = 0
   \<and> dns_sd_announce_avahi numbered 2 no_ports_config (Some ''host'') avahi_start = Some avahi_start
   \<and> dns_sd_announce_macos 2 no_ports_config (Some ''host'') macos_start = macos_start"
proof -
  have "dns_sd_service_count 2 no_ports_config = 0"
    by code_simp
  then show ?thesis
    using announce_without_ports_is_a_no_op
      [of 2 no_ports_config numbered "Some ''host''" avahi_start macos_start]
    by simp
qed

end
